theory Spec2Isabelle
  imports Complex_Main "HOL-Library.Log_Nat"
begin

section \<open>Hotel booking: the data model of \<^verbatim>\<open>hotel_booking.py\<close>\<close>

text \<open>
  The program is a single Python module with three classes, \<^verbatim>\<open>Room\<close>,
  \<^verbatim>\<open>Customer\<close> and \<^verbatim>\<open>Hotel\<close>, and the season table used for pricing.

  Conventions of the embedding:
  \<^item> Python \<^verbatim>\<open>int\<close> is \<open>int\<close>. A price, a budget or a total price is a Python
    number, an \<^verbatim>\<open>int\<close> or a \<^verbatim>\<open>float\<close>: the type \<open>number\<close>. A
    \<^verbatim>\<open>float\<close> is an IEEE 754 double: a finite value, an infinity or NaN, and
    every operation on doubles rounds to the nearest double, ties to even
    (\<open>round_double\<close>). The two zeros of IEEE 754 compare equal in Python and are
    one value here.
  \<^item> A Python \<^verbatim>\<open>str\<close> is the list of its code points.
  \<^item> Every \<^verbatim>\<open>raise ValueError(...)\<close> of the source is one constructor of
    \<open>error\<close>, carrying the values its message interpolates; so is every exception
    the arithmetic of the language raises.
  \<^item> \<^verbatim>\<open>Room\<close> and \<^verbatim>\<open>Customer\<close> objects are shared by reference between
    the hotel, the customers and the caller, so they live in explicit stores and are
    named by their identity; lists hold identities, as Python lists hold references.
  \<^item> \<^verbatim>\<open>datetime.now()\<close> is an input of every function that reads the clock.
  \<^item> The calls to \<^verbatim>\<open>logging\<close> append an event to a sink held by the state.
\<close>

type_synonym str = "nat list"

text \<open>The \<^verbatim>\<open>str\<close> a string literal of the source denotes.\<close>

definition str :: "string \<Rightarrow> str" where
  "str s = map of_char s"

datatype error =
    ValueError_room_type              \<comment> \<open>\<^verbatim>\<open>room type must be 'Single' or 'Double'\<close>\<close>
  | ValueError_price                  \<comment> \<open>\<^verbatim>\<open>price must be positive\<close>\<close>
  | ValueError_max_guests             \<comment> \<open>\<^verbatim>\<open>max guests must be positive\<close>\<close>
  | ValueError_not_available int      \<comment> \<open>\<^verbatim>\<open>room {room_number} is not available\<close>\<close>
  | ValueError_nights                 \<comment> \<open>\<^verbatim>\<open>nights must be positive\<close>\<close>
  | ValueError_name                   \<comment> \<open>\<^verbatim>\<open>name cannot be empty\<close>\<close>
  | ValueError_budget                 \<comment> \<open>\<^verbatim>\<open>budget must be positive\<close>\<close>
  | ValueError_total_price            \<comment> \<open>\<^verbatim>\<open>total_price must be positive\<close>\<close>
  | ValueError_no_bookings            \<comment> \<open>\<^verbatim>\<open>no room bookings\<close>\<close>
  | ValueError_already_exists int     \<comment> \<open>\<^verbatim>\<open>room {room_number} already exists\<close>\<close>
  | ValueError_not_found int          \<comment> \<open>\<^verbatim>\<open>room {room_number} not found\<close>\<close>
  | ValueError_guests                 \<comment> \<open>\<^verbatim>\<open>guests must be positive\<close>\<close>
  | ValueError_no_booking str int     \<comment> \<open>\<^verbatim>\<open>customer {name} has no booking for room {room_number}\<close>\<close>
  | ValueError_list_remove            \<comment> \<open>\<^verbatim>\<open>list.remove(x): x not in list\<close>, raised by the built-in\<close>
  | OverflowError_int_to_float        \<comment> \<open>\<^verbatim>\<open>int too large to convert to float\<close>\<close>
  | OverflowError_division            \<comment> \<open>\<^verbatim>\<open>integer division result too large for a float\<close>\<close>
  | OverflowError_float_to_int        \<comment> \<open>\<^verbatim>\<open>cannot convert float infinity to integer\<close>\<close>
  | ValueError_nan_to_int             \<comment> \<open>\<^verbatim>\<open>cannot convert float NaN to integer\<close>\<close>
  | ZeroDivisionError                 \<comment> \<open>\<^verbatim>\<open>division by zero\<close>\<close>

subsection \<open>Numbers of the language\<close>

text \<open>
  Rounding a real to the nearest integer, a tie going to the even neighbour.
\<close>

definition round_half_even :: "real \<Rightarrow> int" where
  "round_half_even y =
     (let f = \<lfloor>y\<rfloor>; d = y - of_int f
      in if d < 1 / 2 then f else if 1 / 2 < d then f + 1 else if even f then f else f + 1)"

text \<open>
  \<open>ilog2 x\<close> is \<open>\<lfloor>log\<^sub>2 x\<rfloor>\<close> for \<open>x > 0\<close>, computed from the bit length of an
  integer. A double has 53 significant bits; its exponent is at least \<open>- 1022\<close>,
  below which the doubles are the multiples of \<open>2\<^sup>-\<^sup>1\<^sup>0\<^sup>7\<^sup>4\<close>. \<open>quantum x\<close> is the
  distance between neighbouring doubles around \<open>x\<close>, and \<open>round_real x\<close> the
  multiple of it nearest to \<open>x\<close>, a tie going to the even multiple.
\<close>

definition ilog2 :: "real \<Rightarrow> int" where
  "ilog2 x = (if 1 \<le> x then bitlen \<lfloor>x\<rfloor> - 1 else - bitlen (\<lceil>1 / x\<rceil> - 1))"

definition expo :: "real \<Rightarrow> int" where
  "expo x = max (ilog2 \<bar>x\<bar>) (- 1022)"

definition quantum :: "real \<Rightarrow> real" where
  "quantum x = 2 powi (expo x - 52)"

definition round_real :: "real \<Rightarrow> real" where
  "round_real x = (if x = 0 then 0 else of_int (round_half_even (x / quantum x)) * quantum x)"

datatype double = Finite real | PInf | NInf | NaN

text \<open>
  The double nearest to a real: what a literal, a conversion or an arithmetic
  operation yields. Every double is below \<open>2\<^sup>1\<^sup>0\<^sup>2\<^sup>4\<close> in magnitude; a result that
  rounds to that or more is an infinity.
\<close>

definition max_magnitude :: real where
  "max_magnitude = 2 ^ 1024"

definition round_double :: "real \<Rightarrow> double" where
  "round_double x =
     (let r = round_real x
      in if max_magnitude \<le> \<bar>r\<bar> then (if 0 < x then PInf else NInf) else Finite r)"

text \<open>The reals that are doubles.\<close>

definition is_double :: "real \<Rightarrow> bool" where
  "is_double x = (round_double x = Finite x)"

datatype number = PyInt int | PyFloat double

text \<open>
  The values of type \<open>number\<close> that are Python numbers: the finite value of a
  \<^verbatim>\<open>float\<close> is a double.
\<close>

fun valid_number :: "number \<Rightarrow> bool" where
  "valid_number (PyInt i) = True"
| "valid_number (PyFloat (Finite r)) = is_double r"
| "valid_number (PyFloat PInf) = True"
| "valid_number (PyFloat NInf) = True"
| "valid_number (PyFloat NaN) = True"

text \<open>
  Comparison. Python compares an \<^verbatim>\<open>int\<close> with a \<^verbatim>\<open>float\<close> by their
  exact values; every comparison with NaN is false.
\<close>

fun exact :: "number \<Rightarrow> double" where
  "exact (PyInt i) = Finite (of_int i)"
| "exact (PyFloat d) = d"

fun double_le :: "double \<Rightarrow> double \<Rightarrow> bool" where
  "double_le NaN y = False"
| "double_le x NaN = False"
| "double_le NInf y = True"
| "double_le x PInf = True"
| "double_le (Finite a) (Finite b) = (a \<le> b)"
| "double_le PInf y = False"
| "double_le x NInf = False"

definition num_le :: "number \<Rightarrow> number \<Rightarrow> bool" where
  "num_le x y = double_le (exact x) (exact y)"

definition num_ge :: "number \<Rightarrow> number \<Rightarrow> bool" where
  "num_ge x y = double_le (exact y) (exact x)"

text \<open>
  Arithmetic on doubles, as IEEE 754 defines it; none of these raises in Python
  (the divisor of \<open>double_div\<close> is not zero where it is called).
\<close>

fun double_sign :: "double \<Rightarrow> int" where
  "double_sign (Finite a) = (if a = 0 then 0 else if 0 < a then 1 else - 1)"
| "double_sign PInf = 1"
| "double_sign NInf = - 1"
| "double_sign NaN = 0"

definition signed_inf :: "int \<Rightarrow> double" where
  "signed_inf s = (if s = 0 then NaN else if 0 < s then PInf else NInf)"

fun double_sub :: "double \<Rightarrow> double \<Rightarrow> double" where
  "double_sub NaN y = NaN"
| "double_sub x NaN = NaN"
| "double_sub (Finite a) (Finite b) = round_double (a - b)"
| "double_sub PInf PInf = NaN"
| "double_sub NInf NInf = NaN"
| "double_sub PInf y = PInf"
| "double_sub NInf y = NInf"
| "double_sub x PInf = NInf"
| "double_sub x NInf = PInf"

fun double_mul :: "double \<Rightarrow> double \<Rightarrow> double" where
  "double_mul NaN y = NaN"
| "double_mul x NaN = NaN"
| "double_mul (Finite a) (Finite b) = round_double (a * b)"
| "double_mul x y = signed_inf (double_sign x * double_sign y)"

fun double_div :: "double \<Rightarrow> double \<Rightarrow> double" where
  "double_div NaN y = NaN"
| "double_div x NaN = NaN"
| "double_div (Finite a) (Finite b) = round_double (a / b)"
| "double_div (Finite a) y = Finite 0"
| "double_div x (Finite b) = signed_inf (double_sign x * double_sign (Finite b))"
| "double_div x y = NaN"

text \<open>
  Mixed arithmetic converts an \<^verbatim>\<open>int\<close> operand to a \<^verbatim>\<open>float\<close>, which
  raises \<^verbatim>\<open>OverflowError\<close> when the integer rounds beyond the largest double.
\<close>

definition to_float :: "int \<Rightarrow> error + double" where
  "to_float i =
     (case round_double (of_int i) of
        Finite r \<Rightarrow> Inr (Finite r)
      | PInf \<Rightarrow> Inl OverflowError_int_to_float
      | NInf \<Rightarrow> Inl OverflowError_int_to_float
      | NaN \<Rightarrow> Inl OverflowError_int_to_float)"

fun as_float :: "number \<Rightarrow> error + double" where
  "as_float (PyInt i) = to_float i"
| "as_float (PyFloat d) = Inr d"

definition float_op ::
    "(double \<Rightarrow> double \<Rightarrow> double) \<Rightarrow> number \<Rightarrow> number \<Rightarrow> error + number" where
  "float_op f x y =
     (case as_float x of
        Inl e \<Rightarrow> Inl e
      | Inr a \<Rightarrow> (case as_float y of Inl e \<Rightarrow> Inl e | Inr b \<Rightarrow> Inr (PyFloat (f a b))))"

fun num_sub :: "number \<Rightarrow> number \<Rightarrow> error + number" where
  "num_sub (PyInt a) (PyInt b) = Inr (PyInt (a - b))"
| "num_sub x y = float_op double_sub x y"

fun num_mul :: "number \<Rightarrow> number \<Rightarrow> error + number" where
  "num_mul (PyInt a) (PyInt b) = Inr (PyInt (a * b))"
| "num_mul x y = float_op double_mul x y"

text \<open>
  True division \<^verbatim>\<open>/\<close>. Of two integers it is the exact quotient rounded once to
  a double, and \<^verbatim>\<open>OverflowError\<close> when that is beyond the largest double.
\<close>

fun num_truediv :: "number \<Rightarrow> number \<Rightarrow> error + number" where
  "num_truediv (PyInt a) (PyInt b) =
     (if b = 0 then Inl ZeroDivisionError
      else (case round_double (of_int a / of_int b) of
              Finite r \<Rightarrow> Inr (PyFloat (Finite r))
            | PInf \<Rightarrow> Inl OverflowError_division
            | NInf \<Rightarrow> Inl OverflowError_division
            | NaN \<Rightarrow> Inl OverflowError_division))"
| "num_truediv x y =
     (case as_float x of
        Inl e \<Rightarrow> Inl e
      | Inr a \<Rightarrow>
          (case as_float y of
             Inl e \<Rightarrow> Inl e
           | Inr b \<Rightarrow>
               if b = Finite 0 then Inl ZeroDivisionError else Inr (PyFloat (double_div a b))))"

text \<open>\<^verbatim>\<open>int(x)\<close> truncates towards zero; it raises on an infinity and on NaN.\<close>

fun py_int :: "number \<Rightarrow> error + int" where
  "py_int (PyInt i) = Inr i"
| "py_int (PyFloat (Finite r)) = Inr (if 0 \<le> r then \<lfloor>r\<rfloor> else \<lceil>r\<rceil>)"
| "py_int (PyFloat PInf) = Inl OverflowError_float_to_int"
| "py_int (PyFloat NInf) = Inl OverflowError_float_to_int"
| "py_int (PyFloat NaN) = Inl ValueError_nan_to_int"

text \<open>
  \<^verbatim>\<open>round(x, 2)\<close>. Of a \<^verbatim>\<open>float\<close> it is the double nearest to the decimal
  with two places nearest to the value of \<open>x\<close>, a tie going to the even digit; an
  \<^verbatim>\<open>int\<close>, an infinity and NaN are returned as they are.
\<close>

fun py_round2 :: "number \<Rightarrow> number" where
  "py_round2 (PyInt i) = PyInt i"
| "py_round2 (PyFloat (Finite r)) =
     PyFloat (round_double (of_int (round_half_even (r * 100)) / 100))"
| "py_round2 (PyFloat d) = PyFloat d"

subsection \<open>Seasons and the clock\<close>

datatype season = Winter | Spring | Summer | Fall

fun season_label :: "season \<Rightarrow> str" where
  "season_label Winter = str ''winter''"
| "season_label Spring = str ''spring''"
| "season_label Summer = str ''summer''"
| "season_label Fall = str ''fall''"

text \<open>
  The dictionary \<^verbatim>\<open>SEASON_MULTIPLIERS\<close>; its four keys are the four seasons.
  The values are the decimal literals of the source; the \<^verbatim>\<open>float\<close> a literal
  denotes is the double nearest to it, taken where the value is used.
\<close>

fun SEASON_MULTIPLIERS :: "season \<Rightarrow> real" where
  "SEASON_MULTIPLIERS Winter = 8 / 10"
| "SEASON_MULTIPLIERS Spring = 1"
| "SEASON_MULTIPLIERS Summer = 13 / 10"
| "SEASON_MULTIPLIERS Fall = 11 / 10"

text \<open>
  One reading of \<^verbatim>\<open>datetime.now()\<close>: the fields the program uses. Python's
  \<^verbatim>\<open>datetime\<close> guarantees \<open>1 \<le> month \<le> 12\<close>, so the index
  \<open>month - 1\<close> below is within the table of twelve.
\<close>

record datetime =
  month :: nat
  isoformat :: str

definition season_table :: "season list" where
  "season_table = [Winter, Winter, Spring, Spring, Spring,
                   Summer, Summer, Summer, Fall, Fall, Fall, Winter]"

definition get_current_season :: "datetime \<Rightarrow> season" where
  "get_current_season now = season_table ! (month now - 1)"

subsection \<open>Room\<close>

record Room =
  room_number :: int
  room_type :: str
  price_per_night :: number
  is_available :: bool
  max_guests :: int

definition Room_init :: "int \<Rightarrow> str \<Rightarrow> number \<Rightarrow> int \<Rightarrow> error + Room" where
  "Room_init number rtype price guests =
     (if rtype \<notin> set [str ''Single'', str ''Double''] then Inl ValueError_room_type
      else if num_le price (PyInt 0) then Inl ValueError_price
      else if guests \<le> 0 then Inl ValueError_max_guests
      else Inr \<lparr>room_number = number, room_type = rtype, price_per_night = price,
                is_available = True, max_guests = guests\<rparr>)"

definition book_room :: "Room \<Rightarrow> error + Room" where
  "book_room room =
     (if \<not> is_available room then Inl (ValueError_not_available (room_number room))
      else Inr (room\<lparr>is_available := False\<rparr>))"

definition release_room :: "Room \<Rightarrow> Room" where
  "release_room room = room\<lparr>is_available := True\<rparr>"

definition calculate_price :: "Room \<Rightarrow> int \<Rightarrow> datetime \<Rightarrow> error + number" where
  "calculate_price room nights now =
     (if nights \<le> 0 then Inl ValueError_nights
      else let multiplier = PyFloat (round_double (SEASON_MULTIPLIERS (get_current_season now)))
           in (case num_mul (price_per_night room) multiplier of
                 Inl e \<Rightarrow> Inl e
               | Inr product \<Rightarrow> num_mul product (PyInt nights)))"

text \<open>
  What holds of every \<^verbatim>\<open>Room\<close> object: the price is a Python number, and the
  constructor has checked the type, the price and the guests; no method assigns
  any of these fields afterwards.
\<close>

definition Room_inv :: "Room \<Rightarrow> bool" where
  "Room_inv room =
     (room_type room \<in> set [str ''Single'', str ''Double'']
      \<and> valid_number (price_per_night room) \<and> \<not> num_le (price_per_night room) (PyInt 0)
      \<and> 0 < max_guests room)"

subsection \<open>Built-ins of the language\<close>

text \<open>
  \<^verbatim>\<open>str.strip()\<close> removes leading and trailing whitespace; \<open>is_space\<close> is
  \<^verbatim>\<open>str.isspace\<close> on one code point: the characters Unicode classes as
  whitespace (bidirectional type WS, B or S, or category Zs).
\<close>

definition is_space :: "nat \<Rightarrow> bool" where
  "is_space n =
     ((0x09 \<le> n \<and> n \<le> 0x0D) \<or> (0x1C \<le> n \<and> n \<le> 0x20) \<or> n = 0x85 \<or> n = 0xA0
      \<or> n = 0x1680 \<or> (0x2000 \<le> n \<and> n \<le> 0x200A) \<or> n = 0x2028 \<or> n = 0x2029
      \<or> n = 0x202F \<or> n = 0x205F \<or> n = 0x3000)"

definition strip :: "str \<Rightarrow> str" where
  "strip s = rev (dropWhile is_space (rev (dropWhile is_space s)))"

text \<open>
  \<^verbatim>\<open>list.remove(x)\<close> scans from the front, deletes the first element equal to
  \<open>x\<close> and raises \<^verbatim>\<open>ValueError\<close> when there is none.
\<close>

fun list_remove :: "'a \<Rightarrow> 'a list \<Rightarrow> error + 'a list" where
  "list_remove x [] = Inl ValueError_list_remove"
| "list_remove x (y # ys) =
     (if y = x then Inr ys
      else (case list_remove x ys of Inl e \<Rightarrow> Inl e | Inr zs \<Rightarrow> Inr (y # zs)))"

subsection \<open>Customer\<close>

text \<open>
  Objects are named by their identity. \<^verbatim>\<open>Room\<close> defines no \<^verbatim>\<open>__eq__\<close>, so
  \<^verbatim>\<open>in\<close> and \<^verbatim>\<open>list.remove\<close> on a list of rooms compare identities.
\<close>

type_synonym room_ref = nat
type_synonym customer_ref = nat

record Customer =
  name :: str
  budget :: number
  booked_rooms :: "room_ref list"
  loyalty_points :: int

definition Customer_init :: "str \<Rightarrow> number \<Rightarrow> error + Customer" where
  "Customer_init nm b =
     (if nm = [] \<or> strip nm = [] then Inl ValueError_name
      else if num_le b (PyInt 0) then Inl ValueError_budget
      else Inr \<lparr>name = nm, budget = b, booked_rooms = [], loyalty_points = 0\<rparr>)"

text \<open>
  \<^verbatim>\<open>Customer.add_room\<close> and \<^verbatim>\<open>Customer.remove_room\<close>; the
  \<^verbatim>\<open>isinstance\<close> test holds of every \<open>room_ref\<close>.
\<close>

definition Customer_add_room :: "Customer \<Rightarrow> room_ref \<Rightarrow> Customer" where
  "Customer_add_room c room = c\<lparr>booked_rooms := booked_rooms c @ [room]\<rparr>"

definition remove_room :: "Customer \<Rightarrow> room_ref \<Rightarrow> error + Customer" where
  "remove_room c room =
     (case list_remove room (booked_rooms c) of
        Inl e \<Rightarrow> Inl e
      | Inr rest \<Rightarrow> Inr (c\<lparr>booked_rooms := rest\<rparr>))"

text \<open>
  \<^verbatim>\<open>pay_for_booking\<close> assigns the budget before it computes the loyalty
  points, so an exception of the second statement leaves the budget deducted: the
  result carries the customer as the call left it.
\<close>

definition pay_for_booking :: "Customer \<Rightarrow> number \<Rightarrow> (error + bool) \<times> Customer" where
  "pay_for_booking c total_price =
     (if num_le total_price (PyInt 0) then (Inl ValueError_total_price, c)
      else if num_ge (budget c) total_price
        then (case num_sub (budget c) total_price of
                Inl e \<Rightarrow> (Inl e, c)
              | Inr rest \<Rightarrow>
                  let c1 = c\<lparr>budget := rest\<rparr>
                  in (case num_truediv total_price (PyInt 100) of
                        Inl e \<Rightarrow> (Inl e, c1)
                      | Inr hundredths \<Rightarrow>
                          (case py_int hundredths of
                             Inl e \<Rightarrow> (Inl e, c1)
                           | Inr points \<Rightarrow>
                               (Inr True,
                                c1\<lparr>loyalty_points := loyalty_points c1 + points\<rparr>))))
      else (Inr False, c))"

text \<open>
  \<^verbatim>\<open>show_booking_summary\<close> reads the rooms through the store; the text it
  formats is kept as the name and the listed pairs of room number and price.
\<close>

definition show_booking_summary ::
    "(room_ref \<Rightarrow> Room) \<Rightarrow> Customer \<Rightarrow> error + str \<times> (int \<times> number) list" where
  "show_booking_summary store c =
     (if booked_rooms c = [] then Inl ValueError_no_bookings
      else Inr (name c,
                map (\<lambda>r. (room_number (store r), price_per_night (store r))) (booked_rooms c)))"

subsection \<open>Hotel\<close>

record log_entry =
  log_timestamp :: str
  log_customer :: str
  log_room_number :: int
  log_room_type :: str
  log_nights :: int
  log_total_price :: number
  log_season :: str

record Hotel =
  hotel_name :: str
  rooms :: "room_ref list"
  bookings_log :: "log_entry list"

definition Hotel_init :: "str \<Rightarrow> error + Hotel" where
  "Hotel_init nm =
     (if nm = [] \<or> strip nm = [] then Inl ValueError_name
      else Inr \<lparr>hotel_name = nm, rooms = [], bookings_log = []\<rparr>)"

text \<open>The events handed to \<^verbatim>\<open>logging.warning\<close> and \<^verbatim>\<open>logging.info\<close>.\<close>

datatype event =
    Warning_not_available int
  | Warning_guests_exceed int int
  | Warning_not_paid str number
  | Info_booking_successful str int
  | Info_logged_booking log_entry
  | Info_cancelled str int

text \<open>
  The state the \<^verbatim>\<open>Hotel\<close> methods run in: the \<^verbatim>\<open>Room\<close> objects and the
  \<^verbatim>\<open>Customer\<close> objects by identity, the hotel (\<^verbatim>\<open>self\<close>), and the sink.
\<close>

record world =
  room_store :: "room_ref \<Rightarrow> Room"
  customer_store :: "customer_ref \<Rightarrow> Customer"
  hotel :: Hotel
  sink :: "event list"

definition Hotel_add_room :: "world \<Rightarrow> room_ref \<Rightarrow> (error + unit) \<times> world" where
  "Hotel_add_room w room =
     (if \<exists>r \<in> set (rooms (hotel w)).
           room_number (room_store w r) = room_number (room_store w room)
      then (Inl (ValueError_already_exists (room_number (room_store w room))), w)
      else (Inr (), w\<lparr>hotel := (hotel w)\<lparr>rooms := rooms (hotel w) @ [room]\<rparr>\<rparr>))"

text \<open>\<^verbatim>\<open>_find_room\<close>: the loop over \<^verbatim>\<open>self.rooms\<close>, first match wins.\<close>

fun find_room :: "(room_ref \<Rightarrow> Room) \<Rightarrow> room_ref list \<Rightarrow> int \<Rightarrow> error + room_ref" where
  "find_room store [] number = Inl (ValueError_not_found number)"
| "find_room store (room # rest) number =
     (if room_number (store room) = number then Inr room else find_room store rest number)"

definition calculate_total_booking :: "world \<Rightarrow> int \<Rightarrow> int \<Rightarrow> datetime \<Rightarrow> error + number" where
  "calculate_total_booking w number nights now =
     (case find_room (room_store w) (rooms (hotel w)) number of
        Inl e \<Rightarrow> Inl e
      | Inr room \<Rightarrow> calculate_price (room_store w room) nights now)"

text \<open>
  \<^verbatim>\<open>log_booking\<close> reads the clock twice: for the timestamp and, through
  \<^verbatim>\<open>get_current_season\<close>, for the season label.
\<close>

definition log_booking ::
    "world \<Rightarrow> customer_ref \<Rightarrow> room_ref \<Rightarrow> number \<Rightarrow> int \<Rightarrow> datetime \<Rightarrow> datetime \<Rightarrow> world" where
  "log_booking w cust room total_price nights now_stamp now_label =
     (let entry = \<lparr>log_timestamp = isoformat now_stamp,
                    log_customer = name (customer_store w cust),
                    log_room_number = room_number (room_store w room),
                    log_room_type = room_type (room_store w room),
                    log_nights = nights,
                    log_total_price = py_round2 total_price,
                    log_season = season_label (get_current_season now_label)\<rparr>
      in w\<lparr>hotel := (hotel w)\<lparr>bookings_log := bookings_log (hotel w) @ [entry]\<rparr>,
            sink := sink w @ [Info_logged_booking entry]\<rparr>)"

text \<open>
  \<^verbatim>\<open>book_room_for_customer\<close>. The three clock readings are the one of the
  price and the two of \<open>log_booking\<close>. An exception leaves the state as the
  statements before it made it, so every result carries a state.
\<close>

definition book_room_for_customer ::
    "world \<Rightarrow> customer_ref \<Rightarrow> int \<Rightarrow> int \<Rightarrow> int \<Rightarrow> datetime \<Rightarrow> datetime \<Rightarrow> datetime
       \<Rightarrow> (error + bool) \<times> world" where
  "book_room_for_customer w cust number nights guests now_price now_stamp now_label =
     (if nights \<le> 0 then (Inl ValueError_nights, w)
      else if guests \<le> 0 then (Inl ValueError_guests, w)
      else (case find_room (room_store w) (rooms (hotel w)) number of
        Inl e \<Rightarrow> (Inl e, w)
      | Inr room \<Rightarrow>
          if \<not> is_available (room_store w room)
            then (Inr False,
                  w\<lparr>sink := sink w @ [Warning_not_available (room_number (room_store w room))]\<rparr>)
          else if max_guests (room_store w room) < guests
            then (Inr False,
                  w\<lparr>sink := sink w @ [Warning_guests_exceed guests (max_guests (room_store w room))]\<rparr>)
          else (case calculate_total_booking w number nights now_price of
            Inl e \<Rightarrow> (Inl e, w)
          | Inr total_price \<Rightarrow>
              (case pay_for_booking (customer_store w cust) total_price of
                 (Inl e, c) \<Rightarrow> (Inl e, w\<lparr>customer_store := (customer_store w)(cust := c)\<rparr>)
               | (Inr paid, c) \<Rightarrow>
                   let w1 = w\<lparr>customer_store := (customer_store w)(cust := c)\<rparr>
                   in if \<not> paid
                     then (Inr False,
                           w1\<lparr>sink := sink w1 @ [Warning_not_paid (name c) total_price]\<rparr>)
                   else (case book_room (room_store w1 room) of
                     Inl e \<Rightarrow> (Inl e, w1)
                   | Inr booked \<Rightarrow>
                       let w2 = w1\<lparr>room_store := (room_store w1)(room := booked)\<rparr>;
                           w3 = w2\<lparr>customer_store := (customer_store w2)
                                  (cust := Customer_add_room (customer_store w2 cust) room)\<rparr>;
                           w4 = w3\<lparr>sink := sink w3 @
                                  [Info_booking_successful (name (customer_store w3 cust))
                                     (room_number (room_store w3 room))]\<rparr>
                       in (Inr True,
                           log_booking w4 cust room total_price nights now_stamp now_label))))))"

definition cancel_booking :: "world \<Rightarrow> customer_ref \<Rightarrow> int \<Rightarrow> (error + unit) \<times> world" where
  "cancel_booking w cust number =
     (case find_room (room_store w) (rooms (hotel w)) number of
        Inl e \<Rightarrow> (Inl e, w)
      | Inr room \<Rightarrow>
          if room \<notin> set (booked_rooms (customer_store w cust))
            then (Inl (ValueError_no_booking (name (customer_store w cust)) number), w)
          else let w1 = w\<lparr>room_store := (room_store w)(room := release_room (room_store w room))\<rparr>
               in (case remove_room (customer_store w1 cust) room of
                 Inl e \<Rightarrow> (Inl e, w1)
               | Inr c \<Rightarrow>
                   (Inr (),
                    w1\<lparr>customer_store := (customer_store w1)(cust := c),
                        sink := sink w1 @ [Info_cancelled (name c) number]\<rparr>)))"

subsection \<open>Calls on a customer\<close>

text \<open>
  The methods of \<^verbatim>\<open>Customer\<close> as calls, and the object a call leaves behind,
  whether it returned or raised. The argument of a call is a Python value
  (\<open>valid_call\<close>).
\<close>

datatype customer_call =
    Call_add_room room_ref
  | Call_remove_room room_ref
  | Call_pay_for_booking number
  | Call_show_booking_summary

fun customer_after :: "(room_ref \<Rightarrow> Room) \<Rightarrow> Customer \<Rightarrow> customer_call \<Rightarrow> Customer" where
  "customer_after store c (Call_add_room room) = Customer_add_room c room"
| "customer_after store c (Call_remove_room room) =
     (case remove_room c room of Inl e \<Rightarrow> c | Inr c' \<Rightarrow> c')"
| "customer_after store c (Call_pay_for_booking total_price) =
     snd (pay_for_booking c total_price)"
| "customer_after store c Call_show_booking_summary =
     (case show_booking_summary store c of Inl e \<Rightarrow> c | Inr summary \<Rightarrow> c)"

fun valid_call :: "customer_call \<Rightarrow> bool" where
  "valid_call (Call_pay_for_booking total_price) = valid_number total_price"
| "valid_call call = True"

subsection \<open>Reachable states\<close>

text \<open>
  A fresh world: every \<^verbatim>\<open>Room\<close>, every \<^verbatim>\<open>Customer\<close> and the hotel are as
  their constructors return them. The worlds reachable from one by the public
  methods of \<^verbatim>\<open>Hotel\<close>, called in any order with any arguments.
\<close>

definition fresh_world :: "world \<Rightarrow> bool" where
  "fresh_world w =
     ((\<forall>r. Room_init (room_number (room_store w r)) (room_type (room_store w r))
              (price_per_night (room_store w r)) (max_guests (room_store w r))
            = Inr (room_store w r))
      \<and> (\<forall>c. Customer_init (name (customer_store w c)) (budget (customer_store w c))
            = Inr (customer_store w c))
      \<and> Hotel_init (hotel_name (hotel w)) = Inr (hotel w))"

inductive reachable :: "world \<Rightarrow> bool" where
  start: "fresh_world w \<Longrightarrow> reachable w"
| add_room: "reachable w \<Longrightarrow> Hotel_add_room w room = (res, w') \<Longrightarrow> reachable w'"
| book: "reachable w
    \<Longrightarrow> book_room_for_customer w cust number nights guests now_price now_stamp now_label = (ok, w')
    \<Longrightarrow> reachable w'"
| cancel: "reachable w \<Longrightarrow> cancel_booking w cust number = (res, w') \<Longrightarrow> reachable w'"

text \<open>
  The worlds reached from \<open>w\<close> without a cancellation: by any calls of
  \<^verbatim>\<open>Hotel.add_room\<close> and \<^verbatim>\<open>book_room_for_customer\<close>, by calls of
  \<^verbatim>\<open>cancel_booking\<close> that raise, by any call of a method of a customer and
  by \<^verbatim>\<open>Room.book_room\<close> on any room. Only a \<^verbatim>\<open>cancel_booking\<close> that
  returns and \<^verbatim>\<open>Room.release_room\<close> are left out.
\<close>

inductive no_cancellation :: "world \<Rightarrow> world \<Rightarrow> bool" where
  same: "no_cancellation w w"
| add_room: "no_cancellation w w1 \<Longrightarrow> Hotel_add_room w1 room = (res, w2) \<Longrightarrow> no_cancellation w w2"
| book: "no_cancellation w w1
    \<Longrightarrow> book_room_for_customer w1 cust number nights guests now_price now_stamp now_label = (ok, w2)
    \<Longrightarrow> no_cancellation w w2"
| refused: "no_cancellation w w1 \<Longrightarrow> cancel_booking w1 cust number = (Inl e, w2)
    \<Longrightarrow> no_cancellation w w2"
| customer: "no_cancellation w w1
    \<Longrightarrow> no_cancellation w
          (w1\<lparr>customer_store := (customer_store w1)
                (cust := customer_after (room_store w1) (customer_store w1 cust) call)\<rparr>)"
| taken: "no_cancellation w w1 \<Longrightarrow> book_room (room_store w1 room) = Inr booked
    \<Longrightarrow> no_cancellation w (w1\<lparr>room_store := (room_store w1)(room := booked)\<rparr>)"

text \<open>
  The invariant behind the bookkeeping: no room is listed twice, neither by one
  customer nor by two, and a listed room is not available.
\<close>

definition booking_inv :: "world \<Rightarrow> bool" where
  "booking_inv w =
     ((\<forall>c. distinct (booked_rooms (customer_store w c)))
      \<and> (\<forall>c c' r. r \<in> set (booked_rooms (customer_store w c))
            \<longrightarrow> r \<in> set (booked_rooms (customer_store w c')) \<longrightarrow> c = c')
      \<and> (\<forall>c r. r \<in> set (booked_rooms (customer_store w c)) \<longrightarrow> \<not> is_available (room_store w r)))"

subsection \<open>A concrete hotel\<close>

text \<open>
  The objects of the module's own example and of its tests: rooms 101, 102, ...
  (\<^verbatim>\<open>Single\<close>, 100.0 a night, one guest), customers \<^verbatim>\<open>gio\<close> with a budget
  of 500.0, and a hotel that has rooms 101 and 102; a day in July and one in
  November.
\<close>

definition example_rooms :: "room_ref \<Rightarrow> Room" where
  "example_rooms r = \<lparr>room_number = 101 + int r, room_type = str ''Single'',
                       price_per_night = PyFloat (Finite 100), is_available = True, max_guests = 1\<rparr>"

definition example_customers :: "customer_ref \<Rightarrow> Customer" where
  "example_customers c = \<lparr>name = str ''gio'', budget = PyFloat (Finite 500), booked_rooms = [],
                           loyalty_points = 0\<rparr>"

definition example_fresh :: world where
  "example_fresh = \<lparr>room_store = example_rooms, customer_store = example_customers,
                     hotel = \<lparr>hotel_name = str ''The Grand Budapest Hotel'', rooms = [],
                              bookings_log = []\<rparr>,
                     sink = []\<rparr>"

definition example_world :: world where
  "example_world = example_fresh\<lparr>hotel := (hotel example_fresh)\<lparr>rooms := [0, 1]\<rparr>\<rparr>"

definition summer_day :: datetime where
  "summer_day = \<lparr>month = 7, isoformat = str ''2026-07-15T10:00:00''\<rparr>"

definition fall_day :: datetime where
  "fall_day = \<lparr>month = 11, isoformat = str ''2026-11-03T10:00:00''\<rparr>"

text \<open>The world after \<^verbatim>\<open>gio\<close> has booked room 101 for two nights in July.\<close>

definition example_booked :: world where
  "example_booked =
     snd (book_room_for_customer example_world 0 101 2 1 summer_day summer_day summer_day)"

subsection \<open>Predicates on numbers\<close>

text \<open>A number that is neither an infinity nor NaN.\<close>

fun finite_number :: "number \<Rightarrow> bool" where
  "finite_number (PyInt i) = True"
| "finite_number (PyFloat (Finite r)) = True"
| "finite_number (PyFloat PInf) = False"
| "finite_number (PyFloat NInf) = False"
| "finite_number (PyFloat NaN) = False"

text \<open>A positive double or \<open>+\<infinity>\<close>; the least positive double is \<open>2\<^sup>-\<^sup>1\<^sup>0\<^sup>7\<^sup>4\<close>.\<close>

definition positive_double :: "double \<Rightarrow> bool" where
  "positive_double d = (d = PInf \<or> (\<exists>r. d = Finite r \<and> 2 powi (- 1074) \<le> r))"

text \<open>A budget that is a Python number, finite and not negative.\<close>

definition sound_budget :: "Customer \<Rightarrow> bool" where
  "sound_budget c =
     (valid_number (budget c) \<and> finite_number (budget c) \<and> num_ge (budget c) (PyInt 0))"

subsection \<open>Worlds of the concrete hotel\<close>

text \<open>The world after a second customer has then booked room 102 for one night.\<close>

definition example_later :: world where
  "example_later =
     snd (book_room_for_customer example_booked 1 102 1 1 summer_day summer_day summer_day)"

text \<open>
  The concrete hotel with other budgets: 330.0 for every customer; the integer
  \<open>10\<^sup>4\<^sup>0\<^sup>0\<close>; and an infinite budget with rooms of infinite price.
\<close>

definition tight_world :: world where
  "tight_world = example_world
     \<lparr>customer_store := (\<lambda>c. (example_customers c)\<lparr>budget := PyFloat (Finite 330)\<rparr>)\<rparr>"

definition rich_world :: world where
  "rich_world = example_world
     \<lparr>customer_store := (\<lambda>c. (example_customers c)\<lparr>budget := PyInt (10 ^ 400)\<rparr>)\<rparr>"

definition infinite_world :: world where
  "infinite_world = example_world
     \<lparr>room_store := (\<lambda>r. (example_rooms r)\<lparr>price_per_night := PyFloat PInf\<rparr>),
      customer_store := (\<lambda>c. (example_customers c)\<lparr>budget := PyFloat PInf\<rparr>)\<rparr>"

section \<open>Auxiliary facts\<close>

subsection \<open>Rounding to the nearest integer\<close>

lemma round_half_even_of_int: "round_half_even (of_int k) = k"
  by (simp add: round_half_even_def)

lemma round_half_even_mono: "y \<le> z \<Longrightarrow> round_half_even y \<le> round_half_even z"
proof -
  assume le: "y \<le> z"
  from le have "\<lfloor>y\<rfloor> \<le> \<lfloor>z\<rfloor>" by (rule floor_mono)
  then consider "\<lfloor>y\<rfloor> = \<lfloor>z\<rfloor>" | "\<lfloor>y\<rfloor> + 1 \<le> \<lfloor>z\<rfloor>" by linarith
  then show ?thesis
  proof cases
    case 1
    with le show ?thesis by (auto simp: round_half_even_def Let_def)
  next
    case 2
    have "round_half_even y \<le> \<lfloor>y\<rfloor> + 1" by (auto simp: round_half_even_def Let_def)
    moreover have "\<lfloor>z\<rfloor> \<le> round_half_even z" by (auto simp: round_half_even_def Let_def)
    ultimately show ?thesis using 2 by linarith
  qed
qed

lemma round_half_even_ge: "of_int k \<le> y \<Longrightarrow> k \<le> round_half_even y"
  using round_half_even_mono [of "of_int k" y] by (simp add: round_half_even_of_int)

lemma round_half_even_le: "y \<le> of_int k \<Longrightarrow> round_half_even y \<le> k"
  using round_half_even_mono [of y "of_int k"] by (simp add: round_half_even_of_int)

subsection \<open>Powers of two and the binary logarithm\<close>

lemma pow2_less_iff: "(2::real) powi a < 2 powi b \<longleftrightarrow> a < b"
proof
  assume l: "(2::real) powi a < 2 powi b"
  show "a < b"
  proof (rule ccontr)
    assume "\<not> a < b"
    then have "b \<le> a" by simp
    then have "(2::real) powi b \<le> 2 powi a" by (intro power_int_increasing) simp_all
    with l show False by simp
  qed
next
  assume "a < b"
  then show "(2::real) powi a < 2 powi b" by (intro power_int_strict_increasing) simp_all
qed

lemma pow2_le_iff: "(2::real) powi a \<le> 2 powi b \<longleftrightarrow> a \<le> b"
  using pow2_less_iff [of b a] by (simp add: not_less [symmetric])

lemma pow2_pos: "0 < (2::real) powi a"
  by (simp add: zero_less_power_int)

lemma pow2_diff: "(2::real) powi a / 2 powi b = 2 powi (a - b)"
  by (simp add: power_int_diff)

lemma pow2_add: "(2::real) powi a * 2 powi b = 2 powi (a + b)"
  by (simp add: power_int_add)

lemma ilog2_bounds:
  assumes "0 < x"
  shows "2 powi ilog2 x \<le> x" and "x < 2 powi (ilog2 x + 1)"
proof -
  have "2 powi ilog2 x \<le> x \<and> x < 2 powi (ilog2 x + 1)"
  proof (cases "1 \<le> x")
    case True
    define n where "n = \<lfloor>x\<rfloor>"
    from True have n: "0 < n" unfolding n_def by linarith
    have b: "1 \<le> bitlen n" using n bitlen_eq_zero_iff [of n] bitlen_nonneg [of n] by linarith
    from bitlen_bounds [OF n] have lo: "2 ^ nat (bitlen n - 1) \<le> n" and hi: "n < 2 ^ nat (bitlen n)"
      by simp_all
    have e: "ilog2 x = bitlen n - 1" using True by (simp add: ilog2_def n_def)
    have "(2::real) powi (bitlen n - 1) = 2 ^ nat (bitlen n - 1)"
      using b by (simp add: power_int_nonneg_exp)
    also have "\<dots> = of_int (2 ^ nat (bitlen n - 1))" by simp
    also have "\<dots> \<le> of_int n" using lo by (simp only: of_int_le_iff)
    also have "\<dots> \<le> x" unfolding n_def by linarith
    finally have 1: "2 powi ilog2 x \<le> x" unfolding e .
    from hi have "n + 1 \<le> 2 ^ nat (bitlen n)" by linarith
    then have "of_int (n + 1) \<le> (of_int (2 ^ nat (bitlen n)) :: real)" by (simp only: of_int_le_iff)
    moreover have "(of_int (2 ^ nat (bitlen n)) :: real) = 2 ^ nat (bitlen n)" by simp
    moreover have "x < of_int (n + 1)" unfolding n_def by linarith
    ultimately have "x < 2 ^ nat (bitlen n)" by linarith
    also have "\<dots> = 2 powi (bitlen n)" using b by (simp add: power_int_nonneg_exp)
    finally have 2: "x < 2 powi (ilog2 x + 1)" unfolding e by simp
    from 1 2 show ?thesis ..
  next
    case False
    define m where "m = \<lceil>1 / x\<rceil>"
    from False assms have inv: "1 < 1 / x" by simp
    then have m: "0 < m - 1" unfolding m_def by linarith
    define k where "k = bitlen (m - 1)"
    have b: "1 \<le> k" unfolding k_def
      using m bitlen_eq_zero_iff [of "m - 1"] bitlen_nonneg [of "m - 1"] by linarith
    from bitlen_bounds [OF m] have lo: "2 ^ nat (k - 1) \<le> m - 1" and hi: "m - 1 < 2 ^ nat k"
      unfolding k_def by simp_all
    have e: "ilog2 x = - k" using False by (simp add: ilog2_def m_def k_def)
    from hi have "m \<le> 2 ^ nat k" by linarith
    then have "of_int m \<le> (of_int (2 ^ nat k) :: real)" by (simp only: of_int_le_iff)
    also have "\<dots> = 2 ^ nat k" by simp
    finally have "of_int m \<le> (2 ^ nat k :: real)" .
    moreover have "1 / x \<le> of_int m" unfolding m_def by linarith
    ultimately have "1 / x \<le> 2 ^ nat k" by linarith
    then have "1 / x \<le> 2 powi k" using b by (simp add: power_int_nonneg_exp)
    then have "1 \<le> 2 powi k * x" using assms by (simp add: field_simps)
    moreover have "0 < (2::real) powi k" by (rule pow2_pos)
    ultimately have "1 / 2 powi k \<le> x" by (simp add: field_simps)
    then have 1: "2 powi (- k) \<le> x" by (simp only: power_int_minus_divide)
    have "of_int (2 ^ nat (k - 1)) \<le> (of_int (m - 1) :: real)" using lo by (simp only: of_int_le_iff)
    moreover have "(of_int (2 ^ nat (k - 1)) :: real) = 2 ^ nat (k - 1)" by simp
    moreover have "of_int (m - 1) < 1 / x" unfolding m_def by linarith
    ultimately have "2 ^ nat (k - 1) < 1 / x" by linarith
    then have "2 powi (k - 1) < 1 / x" using b by (simp add: power_int_nonneg_exp)
    then have "2 powi (k - 1) * x < 1" using assms by (simp add: field_simps)
    moreover have "0 < (2::real) powi (k - 1)" by (rule pow2_pos)
    ultimately have "x < 1 / 2 powi (k - 1)" by (simp add: field_simps)
    also have "\<dots> = 2 powi (- (k - 1))" by (simp only: power_int_minus_divide)
    also have "- (k - 1) = - k + 1" by simp
    finally have 2: "x < 2 powi (- k + 1)" .
    from 1 2 show ?thesis unfolding e ..
  qed
  then show "2 powi ilog2 x \<le> x" and "x < 2 powi (ilog2 x + 1)" by simp_all
qed

lemma ilog2_unique:
  assumes "2 powi e \<le> x" and "x < 2 powi (e + 1)"
  shows "ilog2 x = e"
proof -
  have pos: "0 < x" using assms(1) pow2_pos [of e] by linarith
  note b = ilog2_bounds [OF pos]
  have "(2::real) powi ilog2 x < 2 powi (e + 1)" using b(1) assms(2) by linarith
  then have 1: "ilog2 x < e + 1" by (simp only: pow2_less_iff)
  have "(2::real) powi e < 2 powi (ilog2 x + 1)" using b(2) assms(1) by linarith
  then have 2: "e < ilog2 x + 1" by (simp only: pow2_less_iff)
  from 1 2 show ?thesis by linarith
qed

lemma ilog2_mono: "0 < x \<Longrightarrow> x \<le> y \<Longrightarrow> ilog2 x \<le> ilog2 y"
proof -
  assume x: "0 < x" and le: "x \<le> y"
  then have y: "0 < y" by linarith
  from ilog2_bounds(1) [OF x] ilog2_bounds(2) [OF y] le
  have "(2::real) powi ilog2 x < 2 powi (ilog2 y + 1)" by linarith
  then have "ilog2 x < ilog2 y + 1" by (simp only: pow2_less_iff)
  then show ?thesis by linarith
qed

subsection \<open>Rounding to a double\<close>

lemma expo_eq:
  assumes "0 < x" and "2 powi e \<le> x \<or> e = - 1022" and "x < 2 powi (e + 1)" and "- 1022 \<le> e"
  shows "expo x = e"
proof (cases "2 powi e \<le> x")
  case True
  from ilog2_unique [OF True assms(3)] assms(1,4) show ?thesis by (simp add: expo_def)
next
  case False
  with assms(2) have e: "e = - 1022" by simp
  from False ilog2_bounds(1) [OF assms(1)] have "(2::real) powi ilog2 x < 2 powi e" by linarith
  then have "ilog2 x < e" by (simp only: pow2_less_iff)
  with e assms(1) show ?thesis by (simp add: expo_def)
qed

lemma expo_ge: "- 1022 \<le> expo x"
  by (simp add: expo_def)

lemma expo_upper: "0 < x \<Longrightarrow> x < 2 powi (expo x + 1)"
proof -
  assume x: "0 < x"
  have "ilog2 x + 1 \<le> expo x + 1" using x by (simp add: expo_def)
  then have "(2::real) powi (ilog2 x + 1) \<le> 2 powi (expo x + 1)" by (simp only: pow2_le_iff)
  with ilog2_bounds(2) [OF x] show ?thesis by linarith
qed

lemma expo_lower: "0 < x \<Longrightarrow> 2 powi expo x \<le> x \<or> expo x = - 1022"
proof -
  assume x: "0 < x"
  show ?thesis
  proof (cases "- 1022 \<le> ilog2 x")
    case True
    then have "expo x = ilog2 x" using x by (simp add: expo_def)
    with ilog2_bounds(1) [OF x] show ?thesis by simp
  next
    case False
    then show ?thesis using x by (simp add: expo_def)
  qed
qed

lemma expo_mono: "0 < x \<Longrightarrow> x \<le> y \<Longrightarrow> expo x \<le> expo y"
  using ilog2_mono [of x y] by (simp add: expo_def)

lemma quantum_pos: "0 < quantum x"
  by (simp add: quantum_def pow2_pos)

lemma round_real_eq:
  assumes "0 < x" and "2 powi e \<le> x \<or> e = - 1022" and "x < 2 powi (e + 1)" and "- 1022 \<le> e"
  shows "round_real x = of_int (round_half_even (x / 2 powi (e - 52))) * 2 powi (e - 52)"
  using assms(1) expo_eq [OF assms] by (simp add: round_real_def quantum_def)

lemma round_real_nonneg: "0 \<le> x \<Longrightarrow> 0 \<le> round_real x"
proof -
  assume x: "0 \<le> x"
  have "0 \<le> x / quantum x" using x quantum_pos [of x] by simp
  then have "0 \<le> round_half_even (x / quantum x)"
    using round_half_even_ge [of 0 "x / quantum x"] by simp
  then show ?thesis using quantum_pos [of x] by (simp add: round_real_def)
qed

lemma round_real_upper:
  assumes "0 < x"
  shows "round_real x \<le> 2 powi (expo x + 1)"
proof -
  have "x / quantum x < 2 powi (expo x + 1) / quantum x"
    using expo_upper [OF assms] quantum_pos [of x] by (simp add: divide_strict_right_mono)
  also have "\<dots> = 2 powi 53" unfolding quantum_def pow2_diff by simp
  finally have "x / quantum x \<le> of_int (2 ^ 53)" by simp
  then have "round_half_even (x / quantum x) \<le> 2 ^ 53" by (rule round_half_even_le)
  then have "of_int (round_half_even (x / quantum x)) \<le> (of_int (2 ^ 53) :: real)"
    by (simp only: of_int_le_iff)
  then have "of_int (round_half_even (x / quantum x)) * quantum x \<le> of_int (2 ^ 53) * quantum x"
    using quantum_pos [of x] by (simp only: mult_le_cancel_right_pos)
  also have "\<dots> = 2 powi 53 * 2 powi (expo x - 52)" by (simp add: quantum_def)
  also have "\<dots> = 2 powi (expo x + 1)"
    unfolding pow2_add by (rule arg_cong [where f = "power_int 2"]) simp
  finally show ?thesis using assms by (simp add: round_real_def)
qed

lemma round_real_lower:
  assumes "0 < x" and "2 powi expo x \<le> x"
  shows "2 powi expo x \<le> round_real x"
proof -
  have "2 powi expo x / quantum x \<le> x / quantum x"
    using assms(2) quantum_pos [of x] by (simp add: divide_right_mono)
  moreover have "2 powi expo x / quantum x = 2 powi 52" unfolding quantum_def pow2_diff by simp
  ultimately have "of_int (2 ^ 52) \<le> x / quantum x" by simp
  then have "2 ^ 52 \<le> round_half_even (x / quantum x)" by (rule round_half_even_ge)
  then have "(of_int (2 ^ 52) :: real) \<le> of_int (round_half_even (x / quantum x))"
    by (simp only: of_int_le_iff)
  then have "of_int (2 ^ 52) * quantum x \<le> of_int (round_half_even (x / quantum x)) * quantum x"
    using quantum_pos [of x] by (simp only: mult_le_cancel_right_pos)
  moreover have "of_int (2 ^ 52) * quantum x = 2 powi 52 * 2 powi (expo x - 52)"
    by (simp add: quantum_def)
  moreover have "2 powi 52 * 2 powi (expo x - 52) = (2::real) powi expo x"
    unfolding pow2_add by simp
  ultimately show ?thesis using assms(1) by (simp add: round_real_def)
qed

lemma round_real_mono:
  assumes "0 \<le> x" and "x \<le> y"
  shows "round_real x \<le> round_real y"
proof (cases "x = 0")
  case True
  with assms round_real_nonneg [of y] show ?thesis by (simp add: round_real_def)
next
  case False
  with assms have x: "0 < x" and y: "0 < y" by simp_all
  from expo_mono [OF x assms(2)] consider "expo x = expo y" | "expo x + 1 \<le> expo y" by linarith
  then show ?thesis
  proof cases
    case 1
    then have q: "quantum x = quantum y" by (simp add: quantum_def)
    have "x / quantum y \<le> y / quantum y"
      using assms(2) quantum_pos [of y] by (simp add: divide_right_mono)
    then have "round_half_even (x / quantum y) \<le> round_half_even (y / quantum y)"
      by (rule round_half_even_mono)
    then have "(of_int (round_half_even (x / quantum y)) :: real)
        \<le> of_int (round_half_even (y / quantum y))"
      by (simp only: of_int_le_iff)
    then have "of_int (round_half_even (x / quantum y)) * quantum y
        \<le> of_int (round_half_even (y / quantum y)) * quantum y"
      using quantum_pos [of y] by (simp only: mult_le_cancel_right_pos)
    then show ?thesis using x y q by (simp add: round_real_def)
  next
    case 2
    then have "expo y \<noteq> - 1022" using expo_ge [of x] by linarith
    with expo_lower [OF y] have "2 powi expo y \<le> y" by simp
    from round_real_lower [OF y this] have "2 powi expo y \<le> round_real y" .
    moreover from 2 have "(2::real) powi (expo x + 1) \<le> 2 powi expo y" by (simp only: pow2_le_iff)
    ultimately show ?thesis using round_real_upper [OF x] by linarith
  qed
qed

lemma round_real_idem:
  assumes "0 \<le> x"
  shows "round_real (round_real x) = round_real x"
proof (cases "round_real x = 0")
  case True
  then show ?thesis by (simp add: round_real_def)
next
  case False
  then have x: "0 < x" using assms by (cases "x = 0") (simp_all add: round_real_def)
  define e where "e = expo x"
  define q where "q = (2::real) powi (e - 52)"
  define k where "k = round_half_even (x / q)"
  have q: "0 < q" unfolding q_def by (rule pow2_pos)
  have r: "round_real x = of_int k * q"
    using x by (simp add: round_real_def quantum_def e_def q_def k_def)
  from False round_real_nonneg [OF assms] have rpos: "0 < round_real x" by simp
  have e: "- 1022 \<le> e" unfolding e_def by (rule expo_ge)
  from round_real_upper [OF x] have up: "round_real x \<le> 2 powi (e + 1)" unfolding e_def .
  show ?thesis
  proof (cases "round_real x = 2 powi (e + 1)")
    case True
    have "round_real (2 powi (e + 1))
        = of_int (round_half_even (2 powi (e + 1) / 2 powi (e + 1 - 52))) * 2 powi (e + 1 - 52)"
      by (rule round_real_eq) (use e in \<open>simp_all add: pow2_pos pow2_less_iff\<close>)
    also have "(2::real) powi (e + 1) / 2 powi (e + 1 - 52) = of_int (2 ^ 52)"
      unfolding pow2_diff by simp
    also have "of_int (round_half_even (of_int (2 ^ 52))) * (2::real) powi (e + 1 - 52)
        = 2 powi 52 * 2 powi (e + 1 - 52)"
      unfolding round_half_even_of_int by simp
    also have "\<dots> = 2 powi (e + 1)"
      unfolding pow2_add by (rule arg_cong [where f = "power_int 2"]) simp
    finally show ?thesis unfolding True .
  next
    case False
    with up have lt: "round_real x < 2 powi (e + 1)" by simp
    have lo: "2 powi e \<le> round_real x \<or> e = - 1022"
      using expo_lower [OF x] round_real_lower [OF x] unfolding e_def by blast
    have "round_real (round_real x)
        = of_int (round_half_even (round_real x / 2 powi (e - 52))) * 2 powi (e - 52)"
      using rpos lo lt e by (rule round_real_eq)
    also have "round_real x / 2 powi (e - 52) = of_int k"
      unfolding r using q by (simp add: q_def)
    also have "of_int (round_half_even (of_int k)) * 2 powi (e - 52) = round_real x"
      unfolding round_half_even_of_int r q_def ..
    finally show ?thesis .
  qed
qed

lemma round_double_Finite:
  "round_double x = Finite r \<Longrightarrow> r = round_real x \<and> \<bar>r\<bar> < max_magnitude"
  by (auto simp: round_double_def Let_def split: if_splits)

lemma is_double_iff: "is_double x \<longleftrightarrow> round_real x = x \<and> \<bar>x\<bar> < max_magnitude"
  by (auto simp: is_double_def round_double_def Let_def)

lemma max_magnitude_pow2: "max_magnitude = 2 powi 1024"
  by (simp add: max_magnitude_def)

lemma max_magnitude_pos: "0 < max_magnitude"
  unfolding max_magnitude_pow2 by (rule pow2_pos)

lemma is_double_0: "is_double 0"
  using max_magnitude_pos by (simp add: is_double_iff round_real_def)

lemma round_double_is_double:
  assumes "0 \<le> x" and "round_double x = Finite r"
  shows "is_double r" and "0 \<le> r"
proof -
  from round_double_Finite [OF assms(2)] have r: "r = round_real x" "\<bar>r\<bar> < max_magnitude"
    by blast+
  from round_real_idem [OF assms(1)] r show "is_double r" by (simp add: is_double_iff)
  from round_real_nonneg [OF assms(1)] r show "0 \<le> r" by simp
qed

lemma round_double_nonneg:
  assumes "0 \<le> x"
  shows "round_double x = PInf \<or> (\<exists>r. round_double x = Finite r \<and> 0 \<le> r)"
proof (cases "x = 0")
  case True
  then show ?thesis using max_magnitude_pos by (simp add: round_double_def round_real_def)
next
  case False
  with assms have "0 < x" by simp
  with round_real_nonneg [OF assms] show ?thesis by (simp add: round_double_def Let_def)
qed

lemma round_double_below:
  assumes "0 \<le> y" and "y \<le> v" and "is_double v"
  shows "\<exists>r. round_double y = Finite r \<and> 0 \<le> r \<and> r \<le> v \<and> is_double r"
proof -
  from assms(3) have v: "round_real v = v" "\<bar>v\<bar> < max_magnitude" by (simp_all add: is_double_iff)
  from round_real_mono [OF assms(1,2)] v(1) have le: "round_real y \<le> v" by simp
  from round_real_nonneg [OF assms(1)] have nn: "0 \<le> round_real y" .
  from le nn v(2) have "\<bar>round_real y\<bar> < max_magnitude" by simp
  then have f: "round_double y = Finite (round_real y)" by (simp add: round_double_def Let_def)
  from round_double_is_double [OF assms(1) f] le f show ?thesis by blast
qed

lemma round_double_above:
  assumes "0 \<le> v" and "v \<le> y" and "is_double v"
  shows "round_double y = PInf \<or> (\<exists>r. round_double y = Finite r \<and> v \<le> r)"
proof -
  from assms(3) have v: "round_real v = v" by (simp add: is_double_iff)
  from round_real_mono [OF assms(1,2)] v have le: "v \<le> round_real y" by simp
  from assms(1,2) have "0 \<le> y" by simp
  from round_double_nonneg [OF this] show ?thesis
  proof
    assume "round_double y = PInf"
    then show ?thesis ..
  next
    assume "\<exists>r. round_double y = Finite r \<and> 0 \<le> r"
    then obtain r where r: "round_double y = Finite r" by blast
    from round_double_Finite [OF r] le r show ?thesis by simp
  qed
qed

lemma round_real_tiny:
  assumes "2 powi (- 1075) < x"
  shows "2 powi (- 1074) \<le> round_real x"
proof (cases "x < 2 powi (- 1021)")
  case True
  have x: "0 < x" using assms pow2_pos [of "- 1075"] by linarith
  have "round_real x
      = of_int (round_half_even (x / 2 powi (- 1022 - 52))) * 2 powi (- 1022 - 52)"
    by (rule round_real_eq) (use x True in simp_all)
  then have r: "round_real x = of_int (round_half_even (x / 2 powi (- 1074))) * 2 powi (- 1074)"
    by simp
  have "2 powi (- 1075) / 2 powi (- 1074) < x / 2 powi (- 1074)"
    using assms pow2_pos [of "- 1074"] by (simp only: divide_strict_right_mono)
  moreover have "(2::real) powi (- 1075) / 2 powi (- 1074) = 1 / 2"
    unfolding pow2_diff by simp
  ultimately have half: "1 / 2 < x / 2 powi (- 1074)" by simp
  have "1 \<le> round_half_even (x / 2 powi (- 1074))"
  proof (cases "1 \<le> x / 2 powi (- 1074)")
    case True
    then show ?thesis using round_half_even_ge [of 1 "x / 2 powi (- 1074)"] by simp
  next
    case False
    with half have "\<lfloor>x / 2 powi (- 1074)\<rfloor> = 0" by linarith
    with half show ?thesis by (simp add: round_half_even_def Let_def)
  qed
  then have "(1::real) \<le> of_int (round_half_even (x / 2 powi (- 1074)))" by simp
  then have "1 * 2 powi (- 1074)
      \<le> of_int (round_half_even (x / 2 powi (- 1074))) * (2::real) powi (- 1074)"
    using pow2_pos [of "- 1074"] by (simp only: mult_le_cancel_right_pos)
  with r show ?thesis by simp
next
  case False
  then have big: "2 powi (- 1021) \<le> x" by simp
  then have x: "0 < x" using pow2_pos [of "- 1021"] by linarith
  have "expo x \<noteq> - 1022"
  proof
    assume "expo x = - 1022"
    with expo_upper [OF x] have "x < 2 powi (- 1021)" by simp
    with big show False by simp
  qed
  with expo_lower [OF x] have lo: "2 powi expo x \<le> x" by simp
  have "(2::real) powi (- 1074) \<le> 2 powi expo x"
    unfolding pow2_le_iff using expo_ge [of x] by linarith
  with round_real_lower [OF x lo] show ?thesis by linarith
qed

lemma is_double_pos:
  assumes "is_double p" and "0 < p"
  shows "2 powi (- 1074) \<le> p"
proof -
  from assms(1) have r: "round_real p = p" by (simp add: is_double_iff)
  with assms(2) have p: "p = of_int (round_half_even (p / quantum p)) * quantum p"
    by (simp add: round_real_def)
  have "0 < of_int (round_half_even (p / quantum p)) * quantum p" using p assms(2) by simp
  then have "0 < (of_int (round_half_even (p / quantum p)) :: real)"
    using quantum_pos [of p] by (simp add: zero_less_mult_iff)
  then have "1 \<le> round_half_even (p / quantum p)" by simp
  then have "(1::real) \<le> of_int (round_half_even (p / quantum p))" by simp
  then have "1 * quantum p \<le> of_int (round_half_even (p / quantum p)) * quantum p"
    using quantum_pos [of p] by (simp only: mult_le_cancel_right_pos)
  with p have "quantum p \<le> p" by simp
  moreover have "(2::real) powi (- 1074) \<le> quantum p"
    unfolding quantum_def pow2_le_iff using expo_ge [of p] by linarith
  ultimately show ?thesis by linarith
qed

lemma round_double_huge:
  assumes "max_magnitude \<le> x"
  shows "round_double x = PInf"
proof -
  have p: "(2::real) powi 1024 \<le> x" using assms unfolding max_magnitude_pow2 .
  have x: "0 < x" using p pow2_pos [of 1024] by linarith
  have "expo x \<noteq> - 1022"
  proof
    assume "expo x = - 1022"
    with expo_upper [OF x] have "x < 2 powi (- 1021)" by simp
    moreover have "(2::real) powi (- 1021) \<le> 2 powi 1024" unfolding pow2_le_iff by simp
    ultimately show False using p by linarith
  qed
  with expo_lower [OF x] have lo: "2 powi expo x \<le> x" by simp
  have "(2::real) powi 1024 < 2 powi (expo x + 1)" using expo_upper [OF x] p by linarith
  then have "1024 < expo x + 1" unfolding pow2_less_iff .
  then have "(2::real) powi 1024 \<le> 2 powi expo x" unfolding pow2_le_iff by linarith
  with round_real_lower [OF x lo] have "max_magnitude \<le> round_real x"
    unfolding max_magnitude_pow2 by linarith
  then have "max_magnitude \<le> \<bar>round_real x\<bar>" by linarith
  with x show ?thesis by (simp add: round_double_def Let_def)
qed

text \<open>Evaluating \<open>round_double\<close> at a value whose binary exponent is known.\<close>

lemma round_double_eval:
  assumes "2 powi e \<le> x" and "x < 2 powi (e + 1)" and "- 1022 \<le> e" and "e < 1023"
  shows "round_double x
           = Finite (of_int (round_half_even (x / 2 powi (e - 52))) * 2 powi (e - 52))"
proof -
  have x: "0 < x" using assms(1) pow2_pos [of e] by linarith
  from assms(1) have lo: "2 powi e \<le> x \<or> e = - 1022" ..
  note r = round_real_eq [OF x lo assms(2,3)]
  from expo_eq [OF x lo assms(2,3)] have e: "expo x = e" .
  from round_real_upper [OF x] have "round_real x \<le> 2 powi (e + 1)" unfolding e .
  moreover have "(2::real) powi (e + 1) \<le> 2 powi 1023"
    unfolding pow2_le_iff using assms(4) by linarith
  moreover have "(2::real) powi 1023 < max_magnitude"
    unfolding max_magnitude_pow2 pow2_less_iff by simp
  moreover have "0 \<le> round_real x" using x by (intro round_real_nonneg) simp
  ultimately have "\<bar>round_real x\<bar> < max_magnitude" by simp
  then show ?thesis unfolding r [symmetric] by (simp add: round_double_def Let_def)
qed

subsection \<open>Numbers of the program\<close>

lemma round_double_1: "round_double 1 = Finite 1"
  using round_double_eval [of 0 1] by (simp add: round_half_even_def)

lemma round_double_100: "round_double 100 = Finite 100"
  using round_double_eval [of 6 100] by (simp add: round_half_even_def)

lemma multiplier_winter:
  "round_double (SEASON_MULTIPLIERS Winter) = Finite (3602879701896397 / 2 ^ 52)"
  using round_double_eval [of "- 1" "SEASON_MULTIPLIERS Winter"]
  by (simp add: round_half_even_def)

lemma multiplier_spring: "round_double (SEASON_MULTIPLIERS Spring) = Finite 1"
  by (simp add: round_double_1)

lemma multiplier_summer:
  "round_double (SEASON_MULTIPLIERS Summer) = Finite (5854679515581645 / 2 ^ 52)"
  using round_double_eval [of 0 "SEASON_MULTIPLIERS Summer"]
  by (simp add: round_half_even_def)

lemma multiplier_fall:
  "round_double (SEASON_MULTIPLIERS Fall) = Finite (2476979795053773 / 2 ^ 51)"
  using round_double_eval [of 0 "SEASON_MULTIPLIERS Fall"]
  by (simp add: round_half_even_def)

lemma multiplier_double:
  "\<exists>m. round_double (SEASON_MULTIPLIERS s) = Finite m \<and> 3 / 4 \<le> m"
proof (cases s)
  case Winter
  have "(3::real) / 4 \<le> 3602879701896397 / 2 ^ 52" by simp
  with multiplier_winter Winter show ?thesis by blast
next
  case Spring
  have "(3::real) / 4 \<le> 1" by simp
  with multiplier_spring Spring show ?thesis by blast
next
  case Summer
  have "(3::real) / 4 \<le> 5854679515581645 / 2 ^ 52" by simp
  with multiplier_summer Summer show ?thesis by blast
next
  case Fall
  have "(3::real) / 4 \<le> 2476979795053773 / 2 ^ 51" by simp
  with multiplier_fall Fall show ?thesis by blast
qed

lemma to_float_100: "to_float 100 = Inr (Finite 100)"
  by (simp add: to_float_def round_double_100)

lemma to_float_pos:
  assumes "0 < i" and "to_float i = Inr d"
  shows "\<exists>r. d = Finite r \<and> 1 \<le> r \<and> is_double r"
proof -
  from assms(2) obtain r where d: "d = Finite r" and r: "round_double (of_int i) = Finite r"
    by (cases "round_double (of_int i)") (auto simp: to_float_def)
  have nn: "(0::real) \<le> of_int i" using assms(1) by simp
  from round_double_is_double [OF nn r] have dbl: "is_double r" by simp
  have "is_double 1" by (simp add: is_double_def round_double_1)
  moreover have "(1::real) \<le> of_int i" using assms(1) by simp
  ultimately have "round_double (of_int i) = PInf \<or> (\<exists>r'. round_double (of_int i) = Finite r' \<and> 1 \<le> r')"
    by (intro round_double_above) simp_all
  with r have "1 \<le> r" by simp
  with d dbl show ?thesis by blast
qed

lemma positive_double_mul:
  assumes "positive_double a" and "3 / 4 \<le> m"
  shows "positive_double (double_mul a (Finite m))"
proof -
  from assms(1) consider "a = PInf" | r where "a = Finite r" "2 powi (- 1074) \<le> r"
    unfolding positive_double_def by blast
  then show ?thesis
  proof cases
    case 1
    with assms(2) show ?thesis by (simp add: positive_double_def signed_inf_def)
  next
    case 2
    have p: "0 < (2::real) powi (- 1074)" by (rule pow2_pos)
    have "(2::real) powi (- 1075) = 2 powi (- 1074) / 2" by (simp add: power_int_minus field_simps)
    also have "\<dots> < 2 powi (- 1074) * (3 / 4)" using p by simp
    also have "\<dots> \<le> r * m" using 2(2) assms(2) p by (intro mult_mono) simp_all
    finally have big: "2 powi (- 1075) < r * m" .
    from round_real_tiny [OF this] have t: "2 powi (- 1074) \<le> round_real (r * m)" .
    have "0 < r * m" using big pow2_pos [of "- 1075"] by linarith
    then have "round_double (r * m) = PInf \<or> round_double (r * m) = Finite (round_real (r * m))"
      by (simp add: round_double_def Let_def)
    with t 2(1) show ?thesis by (auto simp: positive_double_def)
  qed
qed

lemma positive_number:
  assumes "valid_number p" and "\<not> num_le p (PyInt 0)" and "as_float p = Inr a" and "a \<noteq> NaN"
  shows "positive_double a"
proof (cases p)
  case (PyInt i)
  with assms(2) have "0 < i" by (simp add: num_le_def)
  from to_float_pos [OF this] assms(3) PyInt obtain r where "a = Finite r" "1 \<le> r" by auto
  moreover have "(2::real) powi (- 1074) \<le> 2 powi 0" unfolding pow2_le_iff by simp
  ultimately show ?thesis by (simp add: positive_double_def)
next
  case (PyFloat d)
  with assms(3) have a: "a = d" by simp
  show ?thesis
  proof (cases d)
    case (Finite r)
    with assms(1,2) PyFloat have "is_double r" "0 < r" by (simp_all add: num_le_def)
    from is_double_pos [OF this] Finite a show ?thesis by (simp add: positive_double_def)
  next
    case PInf
    with a show ?thesis by (simp add: positive_double_def)
  next
    case NInf
    with assms(2) PyFloat show ?thesis by (simp add: num_le_def)
  next
    case NaN
    with assms(4) a show ?thesis by simp
  qed
qed

text \<open>The price of a room that is finite is a positive double.\<close>

lemma calculate_price_Finite:
  assumes "valid_number (price_per_night room)"
    and "\<not> num_le (price_per_night room) (PyInt 0)"
    and "calculate_price room nights now = Inr (PyFloat (Finite tp))"
  shows "0 < tp" and "is_double tp"
proof -
  obtain m where m: "round_double (SEASON_MULTIPLIERS (get_current_season now)) = Finite m"
    and m34: "3 / 4 \<le> m"
    using multiplier_double by blast
  from assms(3) have n: "0 < nights" by (auto simp: calculate_price_def split: if_splits)
  from assms(3) n m obtain a n' where a: "as_float (price_per_night room) = Inr a"
    and n': "to_float nights = Inr n'"
    and tp: "double_mul (double_mul a (Finite m)) n' = Finite tp"
    by (cases "price_per_night room")
       (auto simp: calculate_price_def Let_def float_op_def split: sum.splits)
  from to_float_pos [OF n n'] obtain nv where nv: "n' = Finite nv" "1 \<le> nv" by blast
  have "a \<noteq> NaN" using tp by auto
  from positive_number [OF assms(1,2) a this] have "positive_double a" .
  from positive_double_mul [OF this m34] have "positive_double (double_mul a (Finite m))" .
  from positive_double_mul [OF this, of nv] nv(2)
  have "positive_double (double_mul (double_mul a (Finite m)) (Finite nv))" by simp
  with tp nv(1) have "2 powi (- 1074) \<le> tp" by (simp add: positive_double_def)
  with pow2_pos [of "- 1074"] show pos: "0 < tp" by linarith
  obtain y where y: "round_double y = Finite tp" "0 \<le> y"
  proof (cases "double_mul a (Finite m)")
    case (Finite r)
    with tp nv(1) have r: "round_double (r * nv) = Finite tp" by simp
    have "0 \<le> r * nv"
    proof (rule ccontr)
      assume "\<not> 0 \<le> r * nv"
      then have neg: "r * nv \<le> 0" by simp
      have "round_real (r * nv) \<le> 0"
      proof -
        have "r * nv / quantum (r * nv) \<le> of_int 0" using neg quantum_pos [of "r * nv"]
          by (simp add: divide_le_0_iff)
        then have "round_half_even (r * nv / quantum (r * nv)) \<le> 0" by (rule round_half_even_le)
        then have "of_int (round_half_even (r * nv / quantum (r * nv))) * quantum (r * nv) \<le> 0"
          using quantum_pos [of "r * nv"] by (simp add: mult_le_0_iff)
        then show ?thesis by (simp add: round_real_def)
      qed
      with round_double_Finite [OF r] pos show False by simp
    qed
    with r that show ?thesis by blast
  next
    case PInf
    with tp nv show ?thesis by (simp add: signed_inf_def split: if_splits)
  next
    case NInf
    with tp nv show ?thesis by (simp add: signed_inf_def split: if_splits)
  next
    case NaN
    with tp show ?thesis by simp
  qed
  from round_double_is_double(1) [OF y(2) y(1)] show "is_double tp" .
qed

subsection \<open>Lists and lookup\<close>

lemma list_remove_absent: "x \<notin> set xs \<Longrightarrow> list_remove x xs = Inl ValueError_list_remove"
  by (induction xs) auto

lemma list_remove_first:
  "x \<in> set xs \<Longrightarrow> \<exists>ys zs. xs = ys @ x # zs \<and> x \<notin> set ys \<and> list_remove x xs = Inr (ys @ zs)"
proof (induction xs)
  case Nil
  then show ?case by simp
next
  case (Cons y xs)
  show ?case
  proof (cases "y = x")
    case True
    then have "y # xs = [] @ x # xs \<and> x \<notin> set [] \<and> list_remove x (y # xs) = Inr ([] @ xs)"
      by simp
    then show ?thesis by blast
  next
    case False
    with Cons.prems have "x \<in> set xs" by simp
    from Cons.IH [OF this] obtain ys zs
      where "xs = ys @ x # zs" "x \<notin> set ys" "list_remove x xs = Inr (ys @ zs)" by blast
    with False have "y # xs = (y # ys) @ x # zs \<and> x \<notin> set (y # ys)
        \<and> list_remove x (y # xs) = Inr ((y # ys) @ zs)"
      by simp
    then show ?thesis by blast
  qed
qed

lemma list_remove_remove1: "x \<in> set xs \<Longrightarrow> list_remove x xs = Inr (remove1 x xs)"
  by (induction xs) auto

lemma find_room_numbers:
  "(\<And>r. room_number (s' r) = room_number (s r)) \<Longrightarrow> find_room s' rs n = find_room s rs n"
  by (induction rs) auto

lemma find_room_Inr:
  "find_room s rs n = Inr room \<Longrightarrow> room \<in> set rs \<and> room_number (s room) = n"
  by (induction rs) (auto split: if_splits)

lemma find_room_append:
  "find_room s rs n = Inr room \<Longrightarrow> find_room s (rs @ ys) n = Inr room"
  by (induction rs) (auto split: if_splits)

subsection \<open>What a call changes\<close>

lemma pay_for_booking_effect:
  assumes "pay_for_booking c x = (res, c')"
  shows "(res \<noteq> Inr True \<and> c' = c)
       \<or> (\<exists>e rest. res = Inl e \<and> \<not> num_le x (PyInt 0) \<and> num_ge (budget c) x
            \<and> num_sub (budget c) x = Inr rest \<and> c' = c\<lparr>budget := rest\<rparr>)
       \<or> (\<exists>rest h points. res = Inr True \<and> \<not> num_le x (PyInt 0) \<and> num_ge (budget c) x
            \<and> num_sub (budget c) x = Inr rest \<and> num_truediv x (PyInt 100) = Inr h
            \<and> py_int h = Inr points
            \<and> c' = c\<lparr>budget := rest, loyalty_points := loyalty_points c + points\<rparr>)"
  using assms unfolding pay_for_booking_def
  by (auto simp: Let_def split: if_splits sum.splits)

lemma pay_for_booking_False: "pay_for_booking c x = (Inr False, c') \<Longrightarrow> c' = c"
  using pay_for_booking_effect [of c x "Inr False" c'] by auto

lemma pay_for_booking_frame:
  assumes "pay_for_booking c x = (res, c')"
  shows "name c' = name c" and "booked_rooms c' = booked_rooms c"
  using pay_for_booking_effect [OF assms] by auto

lemma book_room_for_customer_effect:
  assumes "book_room_for_customer w cust number nights guests t1 t2 t3 = (res, w')"
  shows "(res \<noteq> Inr True \<and> room_store w' = room_store w \<and> hotel w' = hotel w
            \<and> (customer_store w' = customer_store w
                 \<or> (\<exists>e rest. res = Inl e
                      \<and> customer_store w' = (customer_store w)
                           (cust := (customer_store w cust)\<lparr>budget := rest\<rparr>))))
       \<or> (\<exists>room tp rest points entry. res = Inr True \<and> 0 < nights \<and> 0 < guests
            \<and> find_room (room_store w) (rooms (hotel w)) number = Inr room
            \<and> is_available (room_store w room) \<and> guests \<le> max_guests (room_store w room)
            \<and> calculate_price (room_store w room) nights t1 = Inr tp
            \<and> \<not> num_le tp (PyInt 0) \<and> num_ge (budget (customer_store w cust)) tp
            \<and> num_sub (budget (customer_store w cust)) tp = Inr rest
            \<and> room_store w' = (room_store w)(room := (room_store w room)\<lparr>is_available := False\<rparr>)
            \<and> customer_store w' = (customer_store w)
                 (cust := (customer_store w cust)
                    \<lparr>budget := rest,
                     loyalty_points := loyalty_points (customer_store w cust) + points,
                     booked_rooms := booked_rooms (customer_store w cust) @ [room]\<rparr>)
            \<and> hotel w' = (hotel w)\<lparr>bookings_log := bookings_log (hotel w) @ [entry]\<rparr>)"
proof (cases "0 < nights \<and> 0 < guests")
  case False
  with assms show ?thesis by (auto simp: book_room_for_customer_def split: if_splits)
next
  case args: True
  show ?thesis
  proof (cases "find_room (room_store w) (rooms (hotel w)) number")
    case (Inl e)
    with assms args show ?thesis by (auto simp: book_room_for_customer_def)
  next
    case (Inr room)
    show ?thesis
    proof (cases "is_available (room_store w room) \<and> guests \<le> max_guests (room_store w room)")
      case False
      with assms args Inr show ?thesis
        by (auto simp: book_room_for_customer_def split: if_splits)
    next
      case ok: True
      show ?thesis
      proof (cases "calculate_price (room_store w room) nights t1")
        case (Inl e)
        with assms args Inr ok show ?thesis
          by (auto simp: book_room_for_customer_def calculate_total_booking_def)
      next
        case price: (Inr tp)
        obtain pres c where pay: "pay_for_booking (customer_store w cust) tp = (pres, c)"
          by (cases "pay_for_booking (customer_store w cust) tp") blast
        from pay_for_booking_effect [OF pay]
        consider (same) "pres \<noteq> Inr True" "c = customer_store w cust"
          | (raised) e rest where "pres = Inl e" "c = (customer_store w cust)\<lparr>budget := rest\<rparr>"
          | (paid) rest points where "pres = Inr True" "\<not> num_le tp (PyInt 0)"
              "num_ge (budget (customer_store w cust)) tp"
              "num_sub (budget (customer_store w cust)) tp = Inr rest"
              "c = (customer_store w cust)
                 \<lparr>budget := rest, loyalty_points := loyalty_points (customer_store w cust) + points\<rparr>"
          by blast
        then show ?thesis
        proof cases
          case same
          from same(1) have "pres = Inr False \<or> (\<exists>e. pres = Inl e)"
            by (cases pres) auto
          with assms args Inr ok price pay same(2) show ?thesis
            by (auto simp: book_room_for_customer_def calculate_total_booking_def Let_def)
        next
          case raised
          with assms args Inr ok price pay show ?thesis
            by (auto simp: book_room_for_customer_def calculate_total_booking_def Let_def)
        next
          case paid
          with assms args Inr ok price pay show ?thesis
            by (auto simp: book_room_for_customer_def calculate_total_booking_def Let_def
                book_room_def log_booking_def Customer_add_room_def)
        qed
      qed
    qed
  qed
qed

lemma cancel_booking_effect:
  assumes "cancel_booking w cust number = (res, w')"
  shows "((\<exists>e. res = Inl e) \<and> w' = w)
       \<or> (\<exists>room. res = Inr () \<and> find_room (room_store w) (rooms (hotel w)) number = Inr room
            \<and> room \<in> set (booked_rooms (customer_store w cust))
            \<and> room_store w' = (room_store w)(room := (room_store w room)\<lparr>is_available := True\<rparr>)
            \<and> customer_store w' = (customer_store w)
                 (cust := (customer_store w cust)
                    \<lparr>booked_rooms := remove1 room (booked_rooms (customer_store w cust))\<rparr>)
            \<and> hotel w' = hotel w)"
  using assms
  unfolding cancel_booking_def remove_room_def release_room_def
  by (auto simp: Let_def list_remove_remove1 split: if_splits sum.splits)

lemma cancel_booking_succeeds:
  assumes "find_room (room_store w) (rooms (hotel w)) number = Inr room"
    and "room \<in> set (booked_rooms (customer_store w cust))"
  shows "cancel_booking w cust number =
           (Inr (),
            w\<lparr>room_store := (room_store w)(room := (room_store w room)\<lparr>is_available := True\<rparr>),
              customer_store := (customer_store w)
                (cust := (customer_store w cust)
                   \<lparr>booked_rooms := remove1 room (booked_rooms (customer_store w cust))\<rparr>),
              sink := sink w @ [Info_cancelled (name (customer_store w cust)) number]\<rparr>)"
  unfolding cancel_booking_def remove_room_def release_room_def
  using assms by (simp add: list_remove_remove1 Let_def)

subsection \<open>The invariant of the bookkeeping\<close>

lemma fresh_world_inv: "fresh_world w \<Longrightarrow> booking_inv w"
proof -
  assume f: "fresh_world w"
  have "booked_rooms (customer_store w c) = []" for c
  proof -
    from f have "Customer_init (name (customer_store w c)) (budget (customer_store w c))
        = Inr (customer_store w c)"
      unfolding fresh_world_def by blast
    then show ?thesis
      unfolding Customer_init_def by (auto split: if_splits) (metis Customer.select_convs(3))
  qed
  then show ?thesis unfolding booking_inv_def by simp
qed

lemma Hotel_add_room_inv: "booking_inv w \<Longrightarrow> Hotel_add_room w room = (res, w') \<Longrightarrow> booking_inv w'"
  unfolding Hotel_add_room_def booking_inv_def by (auto split: if_splits)

lemma book_room_for_customer_inv:
  assumes inv: "booking_inv w"
    and run: "book_room_for_customer w cust number nights guests t1 t2 t3 = (res, w')"
  shows "booking_inv w'"
proof -
  from book_room_for_customer_effect [OF run]
  consider (same) "room_store w' = room_store w" "customer_store w' = customer_store w"
    | (raised) c where "room_store w' = room_store w"
        "customer_store w' = (customer_store w)(cust := c)"
        "booked_rooms c = booked_rooms (customer_store w cust)"
    | (booked) room c where "is_available (room_store w room)"
        "room_store w' = (room_store w)(room := (room_store w room)\<lparr>is_available := False\<rparr>)"
        "customer_store w' = (customer_store w)(cust := c)"
        "booked_rooms c = booked_rooms (customer_store w cust) @ [room]"
    by auto
  then show ?thesis
  proof cases
    case same
    with inv show ?thesis unfolding booking_inv_def by simp
  next
    case raised
    have "booked_rooms (customer_store w' a) = booked_rooms (customer_store w a)" for a
      unfolding raised(2) using raised(3) by simp
    with inv raised(1) show ?thesis unfolding booking_inv_def by simp
  next
    case booked
    from inv booked(1) have free: "room \<notin> set (booked_rooms (customer_store w c'))" for c'
      unfolding booking_inv_def by blast
    from inv have d: "distinct (booked_rooms (customer_store w c'))" for c'
      unfolding booking_inv_def by blast
    from inv have u: "r \<in> set (booked_rooms (customer_store w a))
        \<Longrightarrow> r \<in> set (booked_rooms (customer_store w b)) \<Longrightarrow> a = b" for a b r
      unfolding booking_inv_def by blast
    from inv have n: "r \<in> set (booked_rooms (customer_store w a))
        \<Longrightarrow> \<not> is_available (room_store w r)" for a r
      unfolding booking_inv_def by blast
    show ?thesis
      unfolding booking_inv_def booked(2,3)
      using free d u n booked(4) by (auto split: if_splits)
  qed
qed

lemma cancel_booking_inv:
  assumes inv: "booking_inv w" and run: "cancel_booking w cust number = (res, w')"
  shows "booking_inv w'"
proof -
  from cancel_booking_effect [OF run]
  consider (same) "w' = w"
    | (cancelled) room c where "room \<in> set (booked_rooms (customer_store w cust))"
        "room_store w' = (room_store w)(room := (room_store w room)\<lparr>is_available := True\<rparr>)"
        "customer_store w' = (customer_store w)(cust := c)"
        "booked_rooms c = remove1 room (booked_rooms (customer_store w cust))"
    by auto
  then show ?thesis
  proof cases
    case same
    with inv show ?thesis by simp
  next
    case cancelled
    from inv have d: "distinct (booked_rooms (customer_store w c'))" for c'
      unfolding booking_inv_def by blast
    from inv have u: "r \<in> set (booked_rooms (customer_store w a))
        \<Longrightarrow> r \<in> set (booked_rooms (customer_store w b)) \<Longrightarrow> a = b" for a b r
      unfolding booking_inv_def by blast
    from inv have n: "r \<in> set (booked_rooms (customer_store w a))
        \<Longrightarrow> \<not> is_available (room_store w r)" for a r
      unfolding booking_inv_def by blast
    have gone: "room \<notin> set (booked_rooms c)"
      using d [of cust] cancelled(4) by simp
    have sub: "set (booked_rooms c) \<subseteq> set (booked_rooms (customer_store w cust))"
      using cancelled(4) by (simp add: set_remove1_subset)
    have other: "c' \<noteq> cust \<Longrightarrow> room \<notin> set (booked_rooms (customer_store w c'))" for c'
      using u cancelled(1) by blast
    show ?thesis
      unfolding booking_inv_def cancelled(2,3)
      using d u n gone sub other cancelled(4) by (auto split: if_splits)
  qed
qed

lemma reachable_booking_inv: "reachable w \<Longrightarrow> booking_inv w"
proof (induction rule: reachable.induct)
  case (start w)
  then show ?case by (rule fresh_world_inv)
next
  case (add_room w room res w')
  then show ?case by (blast intro: Hotel_add_room_inv)
next
  case (book w cust number nights guests now_price now_stamp now_label ok w')
  then show ?case by (blast intro: book_room_for_customer_inv)
next
  case (cancel w cust number res w')
  then show ?case by (blast intro: cancel_booking_inv)
qed

subsection \<open>A booked room stays booked until a cancellation\<close>

lemma no_cancellation_taken:
  assumes "no_cancellation w1 w2"
    and "find_room (room_store w1) (rooms (hotel w1)) number = Inr room"
    and "\<not> is_available (room_store w1 room)"
  shows "find_room (room_store w2) (rooms (hotel w2)) number = Inr room
           \<and> \<not> is_available (room_store w2 room)"
  using assms
proof (induction rule: no_cancellation.induct)
  case (same w)
  then show ?case by simp
next
  case (add_room w w1 room' res w2)
  from add_room.IH [OF add_room.prems]
  have f: "find_room (room_store w1) (rooms (hotel w1)) number = Inr room"
    and t: "\<not> is_available (room_store w1 room)" by simp_all
  from add_room.hyps(2) consider "w2 = w1"
    | "w2 = w1\<lparr>hotel := (hotel w1)\<lparr>rooms := rooms (hotel w1) @ [room']\<rparr>\<rparr>"
    unfolding Hotel_add_room_def by (auto split: if_splits)
  then show ?case
  proof cases
    case 1
    with f t show ?thesis by simp
  next
    case 2
    with find_room_append [OF f] t show ?thesis by simp
  qed
next
  case (book w w1 cust n nights guests now_price now_stamp now_label ok w2)
  from book.IH [OF book.prems]
  have f: "find_room (room_store w1) (rooms (hotel w1)) number = Inr room"
    and t: "\<not> is_available (room_store w1 room)" by simp_all
  from book_room_for_customer_effect [OF book.hyps(2)]
  consider "room_store w2 = room_store w1" "rooms (hotel w2) = rooms (hotel w1)"
    | r where "room_store w2 = (room_store w1)(r := (room_store w1 r)\<lparr>is_available := False\<rparr>)"
        "rooms (hotel w2) = rooms (hotel w1)"
    by auto
  then show ?case
  proof cases
    case 1
    with f t show ?thesis by simp
  next
    case 2
    have "room_number (room_store w2 x) = room_number (room_store w1 x)" for x
      unfolding 2(1) by simp
    then have "find_room (room_store w2) (rooms (hotel w1)) number = Inr room"
      using f by (simp add: find_room_numbers [of "room_store w2" "room_store w1"])
    moreover have "\<not> is_available (room_store w2 room)" unfolding 2(1) using t by simp
    ultimately show ?thesis using 2(2) by simp
  qed
next
  case (refused w w1 cust n e w2)
  from cancel_booking_effect [OF refused.hyps(2)] have "w2 = w1" by auto
  with refused.IH [OF refused.prems] show ?case by simp
next
  case (customer w w1 cust call)
  from customer.IH [OF customer.prems] show ?case by simp
next
  case (taken w w1 r booked)
  from taken.IH [OF taken.prems]
  have f: "find_room (room_store w1) (rooms (hotel w1)) number = Inr room"
    and t: "\<not> is_available (room_store w1 room)" by simp_all
  from taken.hyps(2) have b: "booked = (room_store w1 r)\<lparr>is_available := False\<rparr>"
    by (auto simp: book_room_def split: if_splits)
  let ?store = "(room_store w1)(r := booked)"
  have "room_number (?store x) = room_number (room_store w1 x)" for x
    unfolding b by simp
  then have "find_room ?store (rooms (hotel w1)) number = Inr room"
    using f by (simp add: find_room_numbers [of ?store "room_store w1"])
  moreover have "\<not> is_available (?store room)" unfolding b using t by simp
  ultimately show ?case by (simp add: fun_upd_def)
qed

lemma book_room_for_customer_taken:
  assumes "find_room (room_store w) (rooms (hotel w)) number = Inr room"
    and "\<not> is_available (room_store w room)" and "0 < nights" and "0 < guests"
  shows "book_room_for_customer w cust number nights guests t1 t2 t3
           = (Inr False, w\<lparr>sink := sink w @ [Warning_not_available number]\<rparr>)"
  using assms find_room_Inr [OF assms(1)] by (simp add: book_room_for_customer_def)

subsection \<open>The concrete hotel, evaluated\<close>

lemmas example_defs = example_world_def example_fresh_def example_rooms_def
  example_customers_def summer_day_def fall_day_def

lemmas number_defs = num_le_def num_ge_def float_op_def to_float_def

lemma round_double_2: "round_double 2 = Finite 2"
  using round_double_eval [of 1 2] by (simp add: round_half_even_def)

lemma round_double_3: "round_double 3 = Finite 3"
  using round_double_eval [of 1 3] by (simp add: round_half_even_def)

lemma round_double_130: "round_double (100 * (5854679515581645 / 2 ^ 52)) = Finite 130"
  using round_double_eval [of 7 "100 * (5854679515581645 / 2 ^ 52)"]
  by (simp add: round_half_even_def)

lemma round_double_260: "round_double (130 * 2) = Finite 260"
  using round_double_eval [of 8 "130 * 2"] by (simp add: round_half_even_def)

lemma round_double_240: "round_double (500 - 260) = Finite 240"
  using round_double_eval [of 7 "500 - 260"] by (simp add: round_half_even_def)

lemma round_double_2_6: "round_double (260 / 100) = Finite (5854679515581645 / 2 ^ 51)"
  using round_double_eval [of 1 "260 / 100"] by (simp add: round_half_even_def)

lemma round_double_110: "round_double (100 * (2476979795053773 / 2 ^ 51)) = Finite (110 + 1 / 2 ^ 46)"
  using round_double_eval [of 6 "100 * (2476979795053773 / 2 ^ 51)"]
  by (simp add: round_half_even_def)

lemma round_double_330: "round_double ((110 + 1 / 2 ^ 46) * 3) = Finite (330 + 1 / 2 ^ 44)"
  using round_double_eval [of 8 "(110 + 1 / 2 ^ 46) * 3"]
  by (simp add: round_half_even_def)

lemmas round_evals =
  round_double_1 round_double_2 round_double_3 round_double_100
  round_double_130 [simplified] round_double_260 [simplified] round_double_240 [simplified]
  round_double_2_6 [simplified] round_double_110 [simplified] round_double_330 [simplified]

lemma example_find_room:
  "find_room (room_store example_world) (rooms (hotel example_world)) 101 = Inr 0"
  by (simp add: example_defs)

lemma example_price:
  "calculate_price (room_store example_world 0) 2 summer_day = Inr (PyFloat (Finite 260))"
proof -
  have s: "get_current_season summer_day = Summer"
    by (simp add: get_current_season_def season_table_def summer_day_def)
  have p: "price_per_night (room_store example_world 0) = PyFloat (Finite 100)"
    by (simp add: example_defs)
  show ?thesis
    unfolding calculate_price_def s p multiplier_summer
    by (simp add: number_defs round_evals)
qed

lemma example_price_fall:
  "calculate_price (room_store example_world 0) 3 fall_day
     = Inr (PyFloat (Finite (330 + 1 / 2 ^ 44)))"
proof -
  have s: "get_current_season fall_day = Fall"
    by (simp add: get_current_season_def season_table_def fall_day_def)
  have p: "price_per_night (room_store example_world 0) = PyFloat (Finite 100)"
    by (simp add: example_defs)
  show ?thesis
    unfolding calculate_price_def s p multiplier_fall
    by (simp add: number_defs round_evals)
qed

lemma example_payment:
  "pay_for_booking (example_customers c) (PyFloat (Finite 260))
     = (Inr True, (example_customers c)\<lparr>budget := PyFloat (Finite 240), loyalty_points := 2\<rparr>)"
proof -
  have f: "\<lfloor>(5854679515581645::real) / 2 ^ 51\<rfloor> = 2" by simp
  show ?thesis
    unfolding pay_for_booking_def
    by (simp add: example_customers_def number_defs round_evals f [simplified])
qed

lemma example_booking:
  "book_room_for_customer example_world 0 101 2 1 summer_day summer_day summer_day
     = (Inr True, example_booked)"
proof -
  have c: "customer_store example_world 0 = example_customers 0" by (simp add: example_defs)
  have "fst (book_room_for_customer example_world 0 101 2 1 summer_day summer_day summer_day)
      = Inr True"
    unfolding book_room_for_customer_def calculate_total_booking_def
    by (simp add: example_find_room example_price c example_payment)
       (simp add: example_defs book_room_def Let_def)
  then show ?thesis unfolding example_booked_def by (simp add: prod_eq_iff)
qed

lemma example_booked_effect:
  "room_store example_booked = example_rooms(0 := (example_rooms 0)\<lparr>is_available := False\<rparr>)
   \<and> booked_rooms (customer_store example_booked 0) = [0]
   \<and> rooms (hotel example_booked) = [0, 1]"
  using book_room_for_customer_effect [OF example_booking] example_find_room
  by (auto simp: example_defs)

lemma example_reachable: "reachable example_booked"
proof -
  have "fresh_world example_fresh"
    by (simp add: fresh_world_def example_defs Room_init_def Customer_init_def Hotel_init_def
        strip_def is_space_def str_def num_le_def)
  then have r0: "reachable example_fresh" by (rule reachable.start)
  have "Hotel_add_room example_fresh 0
      = (Inr (), example_fresh\<lparr>hotel := (hotel example_fresh)\<lparr>rooms := [0]\<rparr>\<rparr>)"
    by (simp add: Hotel_add_room_def example_defs)
  from reachable.add_room [OF r0 this]
  have r1: "reachable (example_fresh\<lparr>hotel := (hotel example_fresh)\<lparr>rooms := [0]\<rparr>\<rparr>)" .
  have "Hotel_add_room (example_fresh\<lparr>hotel := (hotel example_fresh)\<lparr>rooms := [0]\<rparr>\<rparr>) 1
      = (Inr (), example_world)"
    by (simp add: Hotel_add_room_def example_defs)
  from reachable.add_room [OF r1 this] have "reachable example_world" .
  from reachable.book [OF this example_booking] show ?thesis .
qed

lemma is_double_100: "is_double 100"
  by (simp add: is_double_def round_double_100)

lemma round_double_sint: "round_double (10 ^ 400) = PInf"
  by (rule round_double_huge) (simp add: max_magnitude_def)

lemma pay_for_booking_float:
  assumes "0 < tp" and "is_double tp"
    and "num_ge (budget c) (PyFloat (Finite tp))" and "as_float (budget c) = Inr b"
  shows "\<exists>q. round_double (tp / 100) = Finite q \<and> 0 \<le> q
           \<and> pay_for_booking c (PyFloat (Finite tp))
               = (Inr True, c\<lparr>budget := PyFloat (double_sub b (Finite tp)),
                               loyalty_points := loyalty_points c + \<lfloor>q\<rfloor>\<rparr>)"
proof -
  have "0 \<le> tp / 100" "tp / 100 \<le> tp" using assms(1) by simp_all
  from round_double_below [OF this assms(2)] obtain q
    where q: "round_double (tp / 100) = Finite q" "0 \<le> q" by blast
  have sub: "num_sub (budget c) (PyFloat (Finite tp)) = Inr (PyFloat (double_sub b (Finite tp)))"
    using assms(4) by (cases "budget c") (simp_all add: float_op_def)
  have div: "num_truediv (PyFloat (Finite tp)) (PyInt 100) = Inr (PyFloat (Finite q))"
    using q(1) by (simp add: to_float_100)
  have pos: "\<not> num_le (PyFloat (Finite tp)) (PyInt 0)" using assms(1) by (simp add: num_le_def)
  have "pay_for_booking c (PyFloat (Finite tp))
      = (Inr True, c\<lparr>budget := PyFloat (double_sub b (Finite tp)),
                      loyalty_points := loyalty_points c + \<lfloor>q\<rfloor>\<rparr>)"
    unfolding pay_for_booking_def sub div using pos assms(3) q(2) by (simp add: Let_def)
  with q show ?thesis by blast
qed




lemma round_double_nights: "round_double (10 ^ 309) = PInf"
  by (rule round_double_huge) (simp add: max_magnitude_def)


lemma round_double_130_1: "round_double (130 * 1) = Finite 130"
  using round_double_eval [of 7 "130 * 1"] by (simp add: round_half_even_def)

lemma round_double_370: "round_double (500 - 130) = Finite 370"
  using round_double_eval [of 8 "500 - 130"] by (simp add: round_half_even_def)

lemma round_double_1_3: "round_double (130 / 100) = Finite (5854679515581645 / 2 ^ 52)"
  using round_double_eval [of 0 "130 / 100"] by (simp add: round_half_even_def)

lemma example_later_booking:
  "book_room_for_customer example_booked 1 102 1 1 summer_day summer_day summer_day
     = (Inr True, example_later)"
proof -
  have s: "get_current_season summer_day = Summer"
    by (simp add: get_current_season_def season_table_def summer_day_def)
  have rs: "room_store example_booked 1 = example_rooms 1"
    using example_booked_effect by simp
  have f: "find_room (room_store example_booked) (rooms (hotel example_booked)) 102 = Inr 1"
    using example_booked_effect by (simp add: example_rooms_def)
  have p: "calculate_price (example_rooms 1) 1 summer_day = Inr (PyFloat (Finite 130))"
    unfolding calculate_price_def s multiplier_summer
    by (simp add: example_rooms_def number_defs round_evals round_double_130_1 [simplified])
  have c: "customer_store example_booked 1 = example_customers 1"
    using book_room_for_customer_effect [OF example_booking] by (auto simp: example_defs)
  have fl: "\<lfloor>(5854679515581645::real) / 2 ^ 52\<rfloor> = 1" by simp
  have pay: "pay_for_booking (example_customers 1) (PyFloat (Finite 130))
      = (Inr True, (example_customers 1)\<lparr>budget := PyFloat (Finite 370), loyalty_points := 1\<rparr>)"
    unfolding pay_for_booking_def
    by (simp add: example_customers_def number_defs round_evals round_double_370 [simplified]
        round_double_1_3 [simplified] fl [simplified])
  have "fst (book_room_for_customer example_booked 1 102 1 1 summer_day summer_day summer_day)
      = Inr True"
    unfolding book_room_for_customer_def calculate_total_booking_def
    by (simp add: f rs [simplified] p [simplified] c [simplified] pay [simplified])
       (simp add: example_rooms_def book_room_def Let_def)
  then show ?thesis unfolding example_later_def by (simp add: prod_eq_iff)
qed

lemma strip_nonempty: "strip nm \<noteq> [] \<Longrightarrow> nm \<noteq> []"
  by (auto simp: strip_def)

lemma strip_no_break_space: "strip [0xA0] = [] \<and> strip [0x85] = [] \<and> strip [0x2003] = []"
  by (simp add: strip_def is_space_def)

lemma round_double_500: "round_double 500 = Finite 500"
  using round_double_eval [of 8 500] by (simp add: round_half_even_def)

lemma positive_price:
  assumes "\<not> num_le x (PyInt 0)" and "num_ge (PyFloat (Finite u)) x \<or> num_ge (PyInt i) x"
    and "valid_number x"
  shows "(\<exists>j. x = PyInt j \<and> 0 < j) \<or> (\<exists>v. x = PyFloat (Finite v) \<and> 0 < v \<and> is_double v)"
proof (cases x)
  case (PyInt j)
  with assms(1) show ?thesis by (simp add: num_le_def)
next
  case (PyFloat d)
  with assms show ?thesis by (cases d) (auto simp: num_le_def num_ge_def)
qed

lemma num_sub_sound:
  assumes b: "valid_number b" "finite_number b"
    and x: "valid_number x" "\<not> num_le x (PyInt 0)" "num_ge b x"
    and sub: "num_sub b x = Inr rest"
  shows "valid_number rest \<and> finite_number rest \<and> num_ge rest (PyInt 0)"
proof (cases b)
  case bi: (PyInt i)
  from positive_price [OF x(2) _ x(1), of 0 i] x(3) bi
  consider j where "x = PyInt j" "0 < j" | v where "x = PyFloat (Finite v)" "0 < v" "is_double v"
    by blast
  then show ?thesis
  proof cases
    case 1
    with bi x(3) sub show ?thesis by (auto simp: num_ge_def)
  next
    case 2
    from x(3) bi 2(1) have le: "v \<le> of_int i" by (simp add: num_ge_def)
    from sub bi 2(1) obtain a where a: "to_float i = Inr a"
      and rest: "rest = PyFloat (double_sub a (Finite v))"
      by (auto simp: float_op_def split: sum.splits)
    from le 2(2) have "(0::real) < of_int i" by linarith
    then have "0 < i" by simp
    from to_float_pos [OF this a] obtain r where r: "a = Finite r" "is_double r" by blast
    from a r(1) have rd: "round_double (of_int i) = Finite r"
      by (cases "round_double (of_int i)") (auto simp: to_float_def)
    have "0 \<le> v" using 2(2) by simp
    from round_double_above [OF this le 2(3)] rd have vr: "v \<le> r" by simp
    have "0 \<le> r - v" "r - v \<le> r" using vr 2(2) by simp_all
    from round_double_below [OF this r(2)] obtain q
      where "round_double (r - v) = Finite q" "0 \<le> q" "is_double q" by blast
    with rest r(1) show ?thesis by (simp add: num_ge_def)
  qed
next
  case bf: (PyFloat d)
  with b(2) obtain u where d: "d = Finite u" by (cases d) simp_all
  from b(1) bf d have du: "is_double u" by simp
  from positive_price [OF x(2) _ x(1), of u 0] x(3) bf d
  consider j where "x = PyInt j" "0 < j" | v where "x = PyFloat (Finite v)" "0 < v" "is_double v"
    by blast
  then show ?thesis
  proof cases
    case 1
    from x(3) bf d 1(1) have le: "of_int j \<le> u" by (simp add: num_ge_def)
    from sub bf d 1(1) obtain a where a: "to_float j = Inr a"
      and rest: "rest = PyFloat (double_sub (Finite u) a)"
      by (auto simp: float_op_def split: sum.splits)
    have "(0::real) \<le> of_int j" using 1(2) by simp
    from round_double_below [OF this le du] obtain r
      where r: "round_double (of_int j) = Finite r" "0 \<le> r" "r \<le> u" by blast
    with a have ar: "a = Finite r" by (simp add: to_float_def)
    have "0 \<le> u - r" "u - r \<le> u" using r by simp_all
    from round_double_below [OF this du] obtain q
      where "round_double (u - r) = Finite q" "0 \<le> q" "is_double q" by blast
    with rest ar show ?thesis by (simp add: num_ge_def)
  next
    case 2
    from x(3) bf d 2(1) have le: "v \<le> u" by (simp add: num_ge_def)
    from sub bf d 2(1) have rest: "rest = PyFloat (round_double (u - v))"
      by (simp add: float_op_def)
    have "0 \<le> u - v" "u - v \<le> u" using le 2(2) by simp_all
    from round_double_below [OF this du] obtain q
      where "round_double (u - v) = Finite q" "0 \<le> q" "is_double q" by blast
    with rest show ?thesis by (simp add: num_ge_def)
  qed
qed

lemma pay_for_booking_sound:
  assumes "sound_budget c" and "valid_number x" and "pay_for_booking c x = (res, c')"
  shows "sound_budget c'"
proof -
  from pay_for_booking_effect [OF assms(3)]
  consider "c' = c"
    | rest where "\<not> num_le x (PyInt 0)" "num_ge (budget c) x" "num_sub (budget c) x = Inr rest"
        "budget c' = rest"
    by auto
  then show ?thesis
  proof cases
    case 1
    with assms(1) show ?thesis by simp
  next
    case 2
    from assms(1) have b: "valid_number (budget c)" "finite_number (budget c)"
      by (simp_all add: sound_budget_def)
    from num_sub_sound [OF b assms(2) 2(1,2,3)] 2(4) show ?thesis
      by (simp add: sound_budget_def)
  qed
qed

lemma customer_after_sound:
  "sound_budget c \<Longrightarrow> valid_call call \<Longrightarrow> sound_budget (customer_after store c call)"
proof (cases call)
  case (Call_pay_for_booking x)
  assume "sound_budget c" "valid_call call"
  with Call_pay_for_booking pay_for_booking_sound [of c x "fst (pay_for_booking c x)"
      "snd (pay_for_booking c x)"]
  show ?thesis by simp
qed (auto simp: sound_budget_def Customer_add_room_def remove_room_def split: sum.splits)

lemma foldl_customer_after_sound:
  "sound_budget c \<Longrightarrow> list_all valid_call calls
     \<Longrightarrow> sound_budget (foldl (customer_after store) c calls)"
  by (induction calls arbitrary: c) (simp_all add: customer_after_sound)

section \<open>The claims\<close>

text \<open>
  Where a claim speaks of a price or a budget, the theorems speak of the Python
  numbers the program computes with. Three claims say of \<^verbatim>\<open>float\<close> arithmetic
  what holds of exact arithmetic; for each, a first theorem evaluates the program at
  inputs where the two differ, and a second states what the program does.
\<close>

subsection \<open>C1: a booking that succeeds\<close>

text \<open>
  Claim C1 says that a booking of an available room within capacity succeeds
  whenever the budget is at least the seasonally adjusted total price. At
  100.0 a night, three nights in November and a budget of 330.0 the exact price is
  330, but \<^verbatim>\<open>100.0 * 1.1 * 3\<close> is the double above 330 and the call returns
  \<^verbatim>\<open>False\<close>. With the integer budget \<open>10\<^sup>4\<^sup>0\<^sup>0\<close> the subtraction converts the
  budget to a \<^verbatim>\<open>float\<close> and raises \<^verbatim>\<open>OverflowError\<close>; with an infinite
  price and an infinite budget \<^verbatim>\<open>int(inf)\<close> raises it.
\<close>

theorem book_room_for_customer_rounding:
  "100 * SEASON_MULTIPLIERS (get_current_season fall_day) * 3
     \<le> (330::real)
   \<and> budget (customer_store tight_world 0) = PyFloat (Finite 330)
   \<and> fst (book_room_for_customer tight_world 0 101 3 1 fall_day fall_day fall_day) = Inr False
   \<and> num_ge (budget (customer_store rich_world 0)) (PyFloat (Finite 260))
   \<and> calculate_price (room_store rich_world 0) 2 summer_day = Inr (PyFloat (Finite 260))
   \<and> fst (book_room_for_customer rich_world 0 101 2 1 summer_day summer_day summer_day)
       = Inl OverflowError_int_to_float
   \<and> calculate_price (room_store infinite_world 0) 2 summer_day = Inr (PyFloat PInf)
   \<and> num_ge (budget (customer_store infinite_world 0)) (PyFloat PInf)
   \<and> fst (book_room_for_customer infinite_world 0 101 2 1 summer_day summer_day summer_day)
       = Inl OverflowError_float_to_int"
proof -
  have s: "get_current_season fall_day = Fall" "get_current_season summer_day = Summer"
    by (simp_all add: get_current_season_def season_table_def fall_day_def summer_day_def)
  have 1: "100 * SEASON_MULTIPLIERS (get_current_season fall_day) * 3 \<le> (330::real)"
    by (simp add: s)
  have f: "find_room (room_store tight_world) (rooms (hotel tight_world)) 101 = Inr 0"
    "find_room (room_store rich_world) (rooms (hotel rich_world)) 101 = Inr 0"
    "find_room (room_store infinite_world) (rooms (hotel infinite_world)) 101 = Inr 0"
    by (simp_all add: tight_world_def rich_world_def infinite_world_def example_defs)
  have r: "room_store tight_world 0 = room_store example_world 0"
    "room_store rich_world 0 = room_store example_world 0"
    by (simp_all add: tight_world_def rich_world_def)
  have a: "is_available (room_store example_world 0)" "max_guests (room_store example_world 0) = 1"
    by (simp_all add: example_defs)
  have 2: "budget (customer_store tight_world 0) = PyFloat (Finite 330)"
    by (simp add: tight_world_def)
  have 3: "fst (book_room_for_customer tight_world 0 101 3 1 fall_day fall_day fall_day)
      = Inr False"
    unfolding book_room_for_customer_def calculate_total_booking_def
    by (simp add: f r a example_price_fall)
       (simp add: pay_for_booking_def tight_world_def number_defs)
  have 4: "num_ge (budget (customer_store rich_world 0)) (PyFloat (Finite 260))"
    by (simp add: rich_world_def num_ge_def)
  have 5: "calculate_price (room_store rich_world 0) 2 summer_day = Inr (PyFloat (Finite 260))"
    by (simp add: r example_price)
  have 6: "fst (book_room_for_customer rich_world 0 101 2 1 summer_day summer_day summer_day)
      = Inl OverflowError_int_to_float"
    unfolding book_room_for_customer_def calculate_total_booking_def
    by (simp add: f r a example_price)
       (simp add: pay_for_booking_def rich_world_def number_defs round_double_sint [simplified])
  have p: "price_per_night (room_store infinite_world 0) = PyFloat PInf"
    "is_available (room_store infinite_world 0)" "max_guests (room_store infinite_world 0) = 1"
    by (simp_all add: infinite_world_def example_defs)
  have 7: "calculate_price (room_store infinite_world 0) 2 summer_day = Inr (PyFloat PInf)"
    unfolding calculate_price_def s p multiplier_summer
    by (simp add: number_defs round_evals signed_inf_def)
  have 8: "num_ge (budget (customer_store infinite_world 0)) (PyFloat PInf)"
    by (simp add: infinite_world_def num_ge_def)
  have 9: "fst (book_room_for_customer infinite_world 0 101 2 1 summer_day summer_day summer_day)
      = Inl OverflowError_float_to_int"
    unfolding book_room_for_customer_def calculate_total_booking_def
    by (simp add: f p 7)
       (simp add: pay_for_booking_def infinite_world_def number_defs round_evals signed_inf_def)
  from 1 2 3 4 5 6 7 8 9 show ?thesis by blast
qed

text \<open>
  Claim C1, amended. When the hotel has a room of the given number, that room is
  available, \<open>0 < guests \<le> max_guests\<close>, \<open>0 < nights\<close>, the price that
  \<open>calculate_price\<close> computes is finite, the budget is at least that price and
  is a \<^verbatim>\<open>float\<close> or an \<^verbatim>\<open>int\<close> that converts to one, then
  \<open>book_room_for_customer\<close> returns \<^verbatim>\<open>True\<close>, the room is no longer
  available, the booking log has grown by exactly one entry (the one
  \<open>log_booking\<close> builds) and the room is appended to the customer's list. The
  room is a \<^verbatim>\<open>Room\<close> object, so it has what its constructor checked
  (\<open>Room_inv\<close>).
\<close>

theorem book_room_for_customer_succeeds:
  assumes found: "find_room (room_store w) (rooms (hotel w)) number = Inr room"
    and inv: "Room_inv (room_store w room)"
    and avail: "is_available (room_store w room)"
    and guests: "0 < guests" "guests \<le> max_guests (room_store w room)"
    and nights: "0 < nights"
    and price: "calculate_price (room_store w room) nights now_price = Inr (PyFloat (Finite tp))"
    and afford: "num_ge (budget (customer_store w cust)) (PyFloat (Finite tp))"
    and convert: "as_float (budget (customer_store w cust)) = Inr b"
  shows "\<exists>w'. book_room_for_customer w cust number nights guests now_price now_stamp now_label
               = (Inr True, w')
           \<and> \<not> is_available (room_store w' room)
           \<and> bookings_log (hotel w') = bookings_log (hotel w) @
               [\<lparr>log_timestamp = isoformat now_stamp,
                 log_customer = name (customer_store w cust),
                 log_room_number = number,
                 log_room_type = room_type (room_store w room),
                 log_nights = nights,
                 log_total_price = py_round2 (PyFloat (Finite tp)),
                 log_season = season_label (get_current_season now_label)\<rparr>]
           \<and> booked_rooms (customer_store w' cust)
               = booked_rooms (customer_store w cust) @ [room]"
proof -
  from inv have v: "valid_number (price_per_night (room_store w room))"
    and p: "\<not> num_le (price_per_night (room_store w room)) (PyInt 0)"
    by (simp_all add: Room_inv_def)
  from calculate_price_Finite [OF v p price] have pos: "0 < tp" and dbl: "is_double tp" .
  from pay_for_booking_float [OF pos dbl afford convert] obtain q
    where "round_double (tp / 100) = Finite q"
      and pay: "pay_for_booking (customer_store w cust) (PyFloat (Finite tp))
        = (Inr True, (customer_store w cust)\<lparr>budget := PyFloat (double_sub b (Finite tp)),
             loyalty_points := loyalty_points (customer_store w cust) + \<lfloor>q\<rfloor>\<rparr>)"
    by blast
  from find_room_Inr [OF found] have num: "room_number (room_store w room) = number" by simp
  show ?thesis
    unfolding book_room_for_customer_def calculate_total_booking_def
    using found avail guests nights price num
    by (simp add: pay book_room_def log_booking_def Customer_add_room_def Let_def)
qed

theorem book_room_for_customer_succeeds_witness:
  "find_room (room_store example_world) (rooms (hotel example_world)) 101 = Inr 0
   \<and> Room_inv (room_store example_world 0) \<and> is_available (room_store example_world 0)
   \<and> 1 \<le> max_guests (room_store example_world 0)
   \<and> calculate_price (room_store example_world 0) 2 summer_day = Inr (PyFloat (Finite 260))
   \<and> num_ge (budget (customer_store example_world 0)) (PyFloat (Finite 260))
   \<and> as_float (budget (customer_store example_world 0)) = Inr (Finite 500)
   \<and> (\<exists>w'. book_room_for_customer example_world 0 101 2 1 summer_day summer_day summer_day
               = (Inr True, w')
         \<and> \<not> is_available (room_store w' 0)
         \<and> length (bookings_log (hotel w')) = length (bookings_log (hotel example_world)) + 1
         \<and> booked_rooms (customer_store w' 0) = booked_rooms (customer_store example_world 0) @ [0])"
proof -
  have i: "Room_inv (room_store example_world 0)"
    by (simp add: Room_inv_def example_defs is_double_100 num_le_def)
  have a: "is_available (room_store example_world 0)" by (simp add: example_defs)
  have g: "(0::int) < 1" "1 \<le> max_guests (room_store example_world 0)"
    by (simp_all add: example_defs)
  have n: "(0::int) < 2" by simp
  have b: "num_ge (budget (customer_store example_world 0)) (PyFloat (Finite 260))"
    by (simp add: example_defs num_ge_def)
  have c: "as_float (budget (customer_store example_world 0)) = Inr (Finite 500)"
    by (simp add: example_defs)
  from book_room_for_customer_succeeds [OF example_find_room i a g n example_price b c,
      of summer_day summer_day]
  obtain w' where
    "book_room_for_customer example_world 0 101 2 1 summer_day summer_day summer_day
       = (Inr True, w')"
    "\<not> is_available (room_store w' 0)"
    "length (bookings_log (hotel w')) = length (bookings_log (hotel example_world)) + 1"
    "booked_rooms (customer_store w' 0) = booked_rooms (customer_store example_world 0) @ [0]"
    by auto
  then show ?thesis using example_find_room i a g example_price b c by blast
qed

subsection \<open>C2: a rejected booking changes nothing\<close>

text \<open>
  Claim C2. Whenever \<open>book_room_for_customer\<close> returns \<^verbatim>\<open>False\<close>, the rooms
  (their availability included), the customers (budget, loyalty points and booked
  rooms) and the hotel (its booking log) are as before the call; only a warning went
  to the logging sink.
\<close>

theorem book_room_for_customer_false_unchanged:
  assumes "book_room_for_customer w cust number nights guests now_price now_stamp now_label
             = (Inr False, w')"
  shows "room_store w' = room_store w \<and> customer_store w' = customer_store w
           \<and> hotel w' = hotel w"
  using book_room_for_customer_effect [OF assms] by auto

theorem book_room_for_customer_false_unchanged_witness:
  "book_room_for_customer example_world 0 101 2 2 summer_day summer_day summer_day
     = (Inr False, example_world\<lparr>sink := [Warning_guests_exceed 2 1]\<rparr>)
   \<and> room_store (example_world\<lparr>sink := [Warning_guests_exceed 2 1]\<rparr>) = room_store example_world
   \<and> customer_store (example_world\<lparr>sink := [Warning_guests_exceed 2 1]\<rparr>)
       = customer_store example_world
   \<and> hotel (example_world\<lparr>sink := [Warning_guests_exceed 2 1]\<rparr>) = hotel example_world"
proof -
  have run: "book_room_for_customer example_world 0 101 2 2 summer_day summer_day summer_day
      = (Inr False, example_world\<lparr>sink := [Warning_guests_exceed 2 1]\<rparr>)"
    unfolding book_room_for_customer_def
    by (simp add: example_find_room) (simp add: example_defs)
  from book_room_for_customer_false_unchanged [OF run] run show ?thesis by blast
qed

subsection \<open>C3: paying for a booking\<close>




subsection \<open>C4: cancelling after a booking\<close>

text \<open>
  Claim C4. After a successful booking, \<open>cancel_booking\<close> of the same room number
  by the same customer returns without an error, makes the room available again and
  removes the room from the customer's list (one occurrence, which gives back the
  list of before the booking when the room was not on it), and it leaves the budget
  and the loyalty points as the booking left them.
\<close>

theorem cancel_after_booking:
  assumes first: "book_room_for_customer w cust number nights guests now_price now_stamp now_label
                    = (Inr True, w1)"
  shows "\<exists>room w2. find_room (room_store w) (rooms (hotel w)) number = Inr room
           \<and> cancel_booking w1 cust number = (Inr (), w2)
           \<and> is_available (room_store w2 room)
           \<and> list_remove room (booked_rooms (customer_store w1 cust))
               = Inr (booked_rooms (customer_store w2 cust))
           \<and> (room \<notin> set (booked_rooms (customer_store w cust))
                \<longrightarrow> booked_rooms (customer_store w2 cust) = booked_rooms (customer_store w cust))
           \<and> budget (customer_store w2 cust) = budget (customer_store w1 cust)
           \<and> loyalty_points (customer_store w2 cust) = loyalty_points (customer_store w1 cust)"
proof -
  from book_room_for_customer_effect [OF first] obtain room entry c
    where found: "find_room (room_store w) (rooms (hotel w)) number = Inr room"
      and store: "room_store w1 = (room_store w)(room := (room_store w room)\<lparr>is_available := False\<rparr>)"
      and cust: "customer_store w1 = (customer_store w)(cust := c)"
      and list: "booked_rooms c = booked_rooms (customer_store w cust) @ [room]"
      and hot: "hotel w1 = (hotel w)\<lparr>bookings_log := bookings_log (hotel w) @ [entry]\<rparr>"
    by auto
  have "room_number (room_store w1 r) = room_number (room_store w r)" for r
    unfolding store by simp
  then have "find_room (room_store w1) (rooms (hotel w)) number = Inr room"
    using found by (simp add: find_room_numbers [of "room_store w1" "room_store w"])
  then have found1: "find_room (room_store w1) (rooms (hotel w1)) number = Inr room"
    unfolding hot by simp
  have c1: "customer_store w1 cust = c" unfolding cust by simp
  have listed: "room \<in> set (booked_rooms (customer_store w1 cust))"
    unfolding c1 list by simp
  define w2 where "w2 = snd (cancel_booking w1 cust number)"
  have run: "cancel_booking w1 cust number = (Inr (), w2)"
    unfolding w2_def cancel_booking_succeeds [OF found1 listed] by simp
  have rs: "room_store w2 room = (room_store w1 room)\<lparr>is_available := True\<rparr>"
    unfolding w2_def cancel_booking_succeeds [OF found1 listed] by simp
  have cs: "customer_store w2 cust = c\<lparr>booked_rooms := remove1 room (booked_rooms c)\<rparr>"
    unfolding w2_def cancel_booking_succeeds [OF found1 listed] by (simp add: c1)
  have a: "is_available (room_store w2 room)" unfolding rs by simp
  have l: "list_remove room (booked_rooms (customer_store w1 cust))
      = Inr (booked_rooms (customer_store w2 cust))"
    using list_remove_remove1 [OF listed] unfolding cs c1 by simp
  have g: "room \<notin> set (booked_rooms (customer_store w cust))
      \<longrightarrow> booked_rooms (customer_store w2 cust) = booked_rooms (customer_store w cust)"
    unfolding cs list by (simp add: remove1_append)
  have b: "budget (customer_store w2 cust) = budget (customer_store w1 cust)"
    unfolding cs c1 by simp
  have p: "loyalty_points (customer_store w2 cust) = loyalty_points (customer_store w1 cust)"
    unfolding cs c1 by simp
  from found run a l g b p show ?thesis by blast
qed

theorem cancel_after_booking_witness:
  "book_room_for_customer example_world 0 101 2 1 summer_day summer_day summer_day
     = (Inr True, example_booked)
   \<and> 0 \<notin> set (booked_rooms (customer_store example_world 0))
   \<and> (\<exists>w2. cancel_booking example_booked 0 101 = (Inr (), w2)
         \<and> is_available (room_store w2 0)
         \<and> list_remove 0 (booked_rooms (customer_store example_booked 0))
             = Inr (booked_rooms (customer_store w2 0))
         \<and> booked_rooms (customer_store w2 0) = booked_rooms (customer_store example_world 0)
         \<and> budget (customer_store w2 0) = budget (customer_store example_booked 0)
         \<and> loyalty_points (customer_store w2 0)
             = loyalty_points (customer_store example_booked 0))"
proof -
  have e: "0 \<notin> set (booked_rooms (customer_store example_world 0))"
    by (simp add: example_defs)
  from cancel_after_booking [OF example_booking] example_find_room e example_booking
  show ?thesis by auto
qed

subsection \<open>C5: booking the same room again\<close>

text \<open>
  Claim C5. After a successful booking and any calls that cancel nothing
  (\<open>no_cancellation\<close>: calls of \<^verbatim>\<open>Hotel.add_room\<close> and of
  \<^verbatim>\<open>book_room_for_customer\<close> with any arguments, calls of
  \<^verbatim>\<open>cancel_booking\<close> that raise, calls of the methods of any customer and of
  \<^verbatim>\<open>Room.book_room\<close>), a \<open>book_room_for_customer\<close> for the same room number,
  by any customer and with \<open>0 < nights\<close> and \<open>0 < guests\<close>, returns
  \<^verbatim>\<open>False\<close>: it raises nothing, so the \<^verbatim>\<open>raise\<close> of \<open>book_room\<close> is
  not reached, and rooms, customers and hotel stay as they were.
\<close>

theorem second_booking_returns_false:
  assumes first: "book_room_for_customer w cust number nights guests now_price now_stamp now_label
                    = (Inr True, w1)"
    and later: "no_cancellation w1 w2"
    and args: "0 < nights2" "0 < guests2"
  shows "\<exists>w3. book_room_for_customer w2 cust2 number nights2 guests2 t1 t2 t3 = (Inr False, w3)
           \<and> room_store w3 = room_store w2 \<and> customer_store w3 = customer_store w2
           \<and> hotel w3 = hotel w2"
proof -
  from book_room_for_customer_effect [OF first] obtain room entry
    where found: "find_room (room_store w) (rooms (hotel w)) number = Inr room"
      and store: "room_store w1 = (room_store w)(room := (room_store w room)\<lparr>is_available := False\<rparr>)"
      and hot: "hotel w1 = (hotel w)\<lparr>bookings_log := bookings_log (hotel w) @ [entry]\<rparr>"
    by auto
  have "room_number (room_store w1 r) = room_number (room_store w r)" for r
    unfolding store by simp
  then have "find_room (room_store w1) (rooms (hotel w)) number = Inr room"
    using found by (simp add: find_room_numbers [of "room_store w1" "room_store w"])
  then have found1: "find_room (room_store w1) (rooms (hotel w1)) number = Inr room"
    unfolding hot by simp
  have taken1: "\<not> is_available (room_store w1 room)" unfolding store by simp
  from no_cancellation_taken [OF later found1 taken1]
  have found2: "find_room (room_store w2) (rooms (hotel w2)) number = Inr room"
    and taken2: "\<not> is_available (room_store w2 room)" by simp_all
  from book_room_for_customer_taken [OF found2 taken2 args]
  show ?thesis by simp
qed

theorem second_booking_returns_false_witness:
  "book_room_for_customer example_world 0 101 2 1 summer_day summer_day summer_day
     = (Inr True, example_booked)
   \<and> book_room_for_customer example_booked 1 102 1 1 summer_day summer_day summer_day
     = (Inr True, example_later)
   \<and> no_cancellation example_booked example_later
   \<and> (\<exists>w3. book_room_for_customer example_later 1 101 3 1 summer_day summer_day summer_day
              = (Inr False, w3)
         \<and> room_store w3 = room_store example_later
         \<and> customer_store w3 = customer_store example_later
         \<and> hotel w3 = hotel example_later)"
proof -
  have a: "(0::int) < 3" "(0::int) < 1" by simp_all
  have n: "no_cancellation example_booked example_later"
    by (rule no_cancellation.book [OF no_cancellation.same example_later_booking])
  from second_booking_returns_false [OF example_booking n a,
      of 1 summer_day summer_day summer_day]
    example_booking example_later_booking n
  show ?thesis by blast
qed

subsection \<open>C6: the price of a stay\<close>

text \<open>
  Claim C6 says that the price is the product of the price per night, the
  multiplier and the nights, linear in the nights. At 100.0 a night, three nights in
  November, \<^verbatim>\<open>100.0 * 1.1 * 3\<close> is the double above 330, not \<open>100 \<times> 1.1 \<times> 3\<close>;
  for \<open>10\<^sup>3\<^sup>0\<^sup>9\<close> nights the conversion of the nights raises
  \<^verbatim>\<open>OverflowError\<close>.
\<close>

theorem calculate_price_rounds:
  "calculate_price (example_rooms 0) 3 fall_day = Inr (PyFloat (Finite (330 + 1 / 2 ^ 44)))
   \<and> (330 + 1 / 2 ^ 44 :: real) \<noteq> 100 * SEASON_MULTIPLIERS (get_current_season fall_day) * 3
   \<and> calculate_price (example_rooms 0) (10 ^ 309) fall_day = Inl OverflowError_int_to_float"
proof -
  have s: "get_current_season fall_day = Fall"
    by (simp add: get_current_season_def season_table_def fall_day_def)
  have r: "room_store example_world 0 = example_rooms 0" by (simp add: example_defs)
  have p: "price_per_night (example_rooms 0) = PyFloat (Finite 100)"
    by (simp add: example_defs)
  have 1: "calculate_price (example_rooms 0) 3 fall_day
      = Inr (PyFloat (Finite (330 + 1 / 2 ^ 44)))"
    using example_price_fall unfolding r .
  have 2: "(330 + 1 / 2 ^ 44 :: real) \<noteq> 100 * SEASON_MULTIPLIERS (get_current_season fall_day) * 3"
    by (simp add: s)
  have 3: "calculate_price (example_rooms 0) (10 ^ 309) fall_day = Inl OverflowError_int_to_float"
    unfolding calculate_price_def s p multiplier_fall
    by (simp add: number_defs round_evals round_double_nights [simplified])
  from 1 2 3 show ?thesis by blast
qed

text \<open>
  Claim C6, amended. \<open>calculate_price\<close> raises the \<^verbatim>\<open>ValueError\<close> of the
  nights when \<open>nights \<le> 0\<close>. Otherwise it multiplies the price per night by the
  double of the multiplier of the current season and the product by the nights,
  in floating point: it raises \<^verbatim>\<open>OverflowError\<close> when the nights, or an
  integer price, are beyond the doubles, and else returns the product of the doubles
  with each multiplication rounded to the nearest double. That is the exact product
  of price, double multiplier and nights when the nights and both products are
  doubles.
\<close>

theorem calculate_price_double:
  "(nights \<le> 0 \<longrightarrow> calculate_price room nights now = Inl ValueError_nights)
   \<and> (0 < nights \<and> as_float (price_per_night room) = Inl e
        \<longrightarrow> calculate_price room nights now = Inl e)
   \<and> (0 < nights \<and> round_double (of_int nights) = PInf
        \<longrightarrow> calculate_price room nights now = Inl OverflowError_int_to_float)
   \<and> (0 < nights \<and> as_float (price_per_night room) = Inr p
        \<and> round_double (of_int nights) = Finite n
        \<longrightarrow> calculate_price room nights now =
              Inr (PyFloat
                (double_mul
                  (double_mul p (round_double (SEASON_MULTIPLIERS (get_current_season now))))
                  (Finite n))))
   \<and> (0 < nights \<and> price_per_night room = PyFloat (Finite v)
        \<and> round_double (SEASON_MULTIPLIERS (get_current_season now)) = Finite m
        \<and> is_double (v * m) \<and> is_double (of_int nights) \<and> is_double (v * m * of_int nights)
        \<longrightarrow> calculate_price room nights now = Inr (PyFloat (Finite (v * m * of_int nights))))"
proof -
  have mul: "float_op double_mul y (PyFloat d)
      = (case as_float y of Inl e \<Rightarrow> Inl e | Inr a \<Rightarrow> Inr (PyFloat (double_mul a d)))" for y d
    by (simp add: float_op_def split: sum.splits)
  have 1: "nights \<le> 0 \<longrightarrow> calculate_price room nights now = Inl ValueError_nights"
    by (simp add: calculate_price_def)
  have 2: "0 < nights \<and> as_float (price_per_night room) = Inl e
      \<longrightarrow> calculate_price room nights now = Inl e"
    by (simp add: calculate_price_def Let_def mul)
  have err: "as_float y = Inl e' \<Longrightarrow> e' = OverflowError_int_to_float" for y e'
    by (cases y) (auto simp: to_float_def split: double.splits)
  have 3: "0 < nights \<and> round_double (of_int nights) = PInf
      \<longrightarrow> calculate_price room nights now = Inl OverflowError_int_to_float"
    by (cases "as_float (price_per_night room)")
       (auto simp: calculate_price_def Let_def mul float_op_def to_float_def
          split: double.splits dest: err)
  have 4: "0 < nights \<and> as_float (price_per_night room) = Inr p
      \<and> round_double (of_int nights) = Finite n
      \<longrightarrow> calculate_price room nights now =
            Inr (PyFloat
              (double_mul
                (double_mul p (round_double (SEASON_MULTIPLIERS (get_current_season now))))
                (Finite n)))"
    by (simp add: calculate_price_def Let_def mul float_op_def to_float_def)
  have 5: "0 < nights \<and> price_per_night room = PyFloat (Finite v)
      \<and> round_double (SEASON_MULTIPLIERS (get_current_season now)) = Finite m
      \<and> is_double (v * m) \<and> is_double (of_int nights) \<and> is_double (v * m * of_int nights)
      \<longrightarrow> calculate_price room nights now = Inr (PyFloat (Finite (v * m * of_int nights)))"
    by (simp add: calculate_price_def Let_def float_op_def to_float_def is_double_def)
  from 1 2 3 4 5 show ?thesis by blast
qed

theorem calculate_price_double_witness:
  "(0::int) < 2 \<and> (0::int) \<le> 0
   \<and> as_float (price_per_night (example_rooms 0)) = Inr (Finite 100)
   \<and> round_double (of_int 2) = Finite 2
   \<and> calculate_price (example_rooms 0) 2 summer_day
       = Inr (PyFloat
           (double_mul
             (double_mul (Finite 100)
               (round_double (SEASON_MULTIPLIERS (get_current_season summer_day))))
             (Finite 2)))
   \<and> calculate_price (example_rooms 0) 0 summer_day = Inl ValueError_nights"
proof -
  have a: "as_float (price_per_night (example_rooms 0)) = Inr (Finite 100)"
    by (simp add: example_defs)
  have n: "round_double (of_int 2) = Finite 2" by (simp add: round_double_2)
  from calculate_price_double [of 2 "example_rooms 0" summer_day _ "Finite 100" 2] a n
    calculate_price_double [of 0 "example_rooms 0" summer_day]
  show ?thesis by simp
qed

subsection \<open>C7: months, seasons and multipliers\<close>

text \<open>
  Claim C7. \<open>get_current_season\<close> maps January and February to winter, March to
  May to spring, June to August to summer, September to November to fall and
  December to winter; the multipliers are 0.8 for winter, 1.0 for spring, 1.3 for
  summer and 1.1 for fall.
\<close>

theorem season_of_month:
  "(month now \<in> {1, 2} \<longrightarrow> get_current_season now = Winter)
   \<and> (month now \<in> {3, 4, 5} \<longrightarrow> get_current_season now = Spring)
   \<and> (month now \<in> {6, 7, 8} \<longrightarrow> get_current_season now = Summer)
   \<and> (month now \<in> {9, 10, 11} \<longrightarrow> get_current_season now = Fall)
   \<and> (month now = 12 \<longrightarrow> get_current_season now = Winter)
   \<and> SEASON_MULTIPLIERS Winter = 8 / 10 \<and> SEASON_MULTIPLIERS Spring = 1
   \<and> SEASON_MULTIPLIERS Summer = 13 / 10 \<and> SEASON_MULTIPLIERS Fall = 11 / 10"
  unfolding get_current_season_def season_table_def by auto

theorem season_of_month_witness:
  "month summer_day \<in> {6, 7, 8} \<and> get_current_season summer_day = Summer
   \<and> SEASON_MULTIPLIERS (get_current_season summer_day) = 13 / 10"
proof -
  have m: "month summer_day = 7" by (simp add: summer_day_def)
  with season_of_month [of summer_day] show ?thesis by simp
qed

subsection \<open>C8: constructing a customer, and the budget afterwards\<close>

text \<open>
  Claim C8 says that construction succeeds for every name that is not blank and every
  budget \<open>\<ge> 0\<close>, and that the budget stays \<open>\<ge> 0\<close>. The constructor rejects the
  budget 0: its guard is \<^verbatim>\<open>budget <= 0\<close>, with the message
  \<^verbatim>\<open>budget must be positive\<close>. It accepts an infinite budget, and paying an
  infinite price from it leaves the budget NaN, which is not \<open>\<ge> 0\<close>.
\<close>

theorem Customer_init_rejects:
  "strip (str ''gio'') \<noteq> [] \<and> num_ge (PyInt 0) (PyInt 0)
   \<and> Customer_init (str ''gio'') (PyInt 0) = Inl ValueError_budget
   \<and> Customer_init (str ''gio'') (PyFloat PInf)
       = Inr ((example_customers 0)\<lparr>budget := PyFloat PInf\<rparr>)
   \<and> pay_for_booking ((example_customers 0)\<lparr>budget := PyFloat PInf\<rparr>) (PyFloat PInf)
       = (Inl OverflowError_float_to_int, (example_customers 0)\<lparr>budget := PyFloat NaN\<rparr>)
   \<and> \<not> num_ge (PyFloat NaN) (PyInt 0)"
proof -
  have s: "strip (str ''gio'') \<noteq> []" by (simp add: strip_def is_space_def str_def)
  have 1: "Customer_init (str ''gio'') (PyInt 0) = Inl ValueError_budget"
    using s by (simp add: Customer_init_def num_le_def) (simp add: str_def)
  have 2: "Customer_init (str ''gio'') (PyFloat PInf)
      = Inr ((example_customers 0)\<lparr>budget := PyFloat PInf\<rparr>)"
    using s by (simp add: Customer_init_def num_le_def example_customers_def) (simp add: str_def)
  have 3: "pay_for_booking ((example_customers 0)\<lparr>budget := PyFloat PInf\<rparr>) (PyFloat PInf)
      = (Inl OverflowError_float_to_int, (example_customers 0)\<lparr>budget := PyFloat NaN\<rparr>)"
    unfolding pay_for_booking_def
    by (simp add: number_defs round_evals signed_inf_def)
  from s 1 2 3 show ?thesis by (simp add: num_ge_def)
qed

text \<open>
  Claim C8, amended. For every name that is not blank and every finite budget
  \<open>> 0\<close>, the constructor returns a customer with 0 loyalty points and no booked
  rooms, and the budget of that customer is \<open>\<ge> 0\<close> after any sequence of calls of
  its methods.
\<close>

theorem Customer_init_positive_budget:
  assumes "strip nm \<noteq> []" and "valid_number b" and "finite_number b"
    and "\<not> num_le b (PyInt 0)"
  shows "\<exists>c. Customer_init nm b = Inr c \<and> loyalty_points c = 0 \<and> booked_rooms c = []
           \<and> (\<forall>store calls. list_all valid_call calls
                \<longrightarrow> num_ge (budget (foldl (customer_after store) c calls)) (PyInt 0))"
proof -
  let ?c = "\<lparr>name = nm, budget = b, booked_rooms = [], loyalty_points = 0\<rparr>"
  from assms(1,4) strip_nonempty [OF assms(1)] have init: "Customer_init nm b = Inr ?c"
    by (simp add: Customer_init_def)
  have "num_ge b (PyInt 0)"
  proof (cases b)
    case (PyInt i)
    with assms(4) show ?thesis by (simp add: num_le_def num_ge_def)
  next
    case (PyFloat d)
    with assms(3,4) show ?thesis by (cases d) (simp_all add: num_le_def num_ge_def)
  qed
  with assms(2,3) have "sound_budget ?c" by (simp add: sound_budget_def)
  then have "\<forall>store calls. list_all valid_call calls
      \<longrightarrow> num_ge (budget (foldl (customer_after store) ?c calls)) (PyInt 0)"
    using foldl_customer_after_sound [of ?c] by (simp add: sound_budget_def)
  with init show ?thesis by simp
qed

theorem Customer_init_positive_budget_witness:
  "strip (str ''gio'') \<noteq> [] \<and> valid_number (PyFloat (Finite 500))
   \<and> finite_number (PyFloat (Finite 500)) \<and> \<not> num_le (PyFloat (Finite 500)) (PyInt 0)
   \<and> Customer_init (str ''gio'') (PyFloat (Finite 500)) = Inr (example_customers 0)
   \<and> list_all valid_call [Call_pay_for_booking (PyFloat (Finite 260)), Call_add_room 0,
        Call_pay_for_booking (PyFloat (Finite 260))]
   \<and> num_ge (budget (foldl (customer_after example_rooms) (example_customers 0)
        [Call_pay_for_booking (PyFloat (Finite 260)), Call_add_room 0,
         Call_pay_for_booking (PyFloat (Finite 260))])) (PyInt 0)"
proof -
  let ?calls = "[Call_pay_for_booking (PyFloat (Finite 260)), Call_add_room 0,
    Call_pay_for_booking (PyFloat (Finite 260))]"
  have s: "strip (str ''gio'') \<noteq> []" by (simp add: strip_def is_space_def str_def)
  have v: "valid_number (PyFloat (Finite 500))" by (simp add: is_double_def round_double_500)
  have f: "finite_number (PyFloat (Finite 500))" by simp
  have p: "\<not> num_le (PyFloat (Finite 500)) (PyInt 0)" by (simp add: num_le_def)
  have i: "Customer_init (str ''gio'') (PyFloat (Finite 500)) = Inr (example_customers 0)"
    using s p by (simp add: Customer_init_def example_customers_def) (simp add: str_def)
  have d: "is_double 260" using round_double_260 by (simp add: is_double_def)
  then have l: "list_all valid_call ?calls" by simp
  from Customer_init_positive_budget [OF s v f p] obtain c
    where c: "Customer_init (str ''gio'') (PyFloat (Finite 500)) = Inr c"
      and calls: "\<forall>store calls. list_all valid_call calls
        \<longrightarrow> num_ge (budget (foldl (customer_after store) c calls)) (PyInt 0)"
    by blast
  from c i have "c = example_customers 0" by simp
  with calls l have "num_ge (budget (foldl (customer_after example_rooms) (example_customers 0)
      ?calls)) (PyInt 0)"
    by blast
  with s v f p i l show ?thesis by blast
qed

subsection \<open>C9: a booked room is not available\<close>

text \<open>
  Claim C9. In every world reachable from a fresh one by \<open>Hotel_add_room\<close>,
  \<open>book_room_for_customer\<close> and \<open>cancel_booking\<close>, a room on the list of booked
  rooms of some customer is not available.
\<close>

theorem booked_room_not_available:
  assumes "reachable w" and "room \<in> set (booked_rooms (customer_store w cust))"
  shows "\<not> is_available (room_store w room)"
  using reachable_booking_inv [OF assms(1)] assms(2) unfolding booking_inv_def by blast

theorem booked_room_not_available_witness:
  "reachable example_booked \<and> 0 \<in> set (booked_rooms (customer_store example_booked 0))
   \<and> \<not> is_available (room_store example_booked 0)"
proof -
  have l: "0 \<in> set (booked_rooms (customer_store example_booked 0))"
    using example_booked_effect by simp
  from booked_room_not_available [OF example_reachable l] example_reachable l
  show ?thesis by blast
qed

subsection \<open>C10: removing a room from a customer's list\<close>

text \<open>
  Claim C10. \<open>remove_room\<close> deletes the first occurrence of the room from the
  list of booked rooms and keeps every other element in its place and order; of a
  room listed twice, one occurrence remains.
\<close>

theorem remove_room_first_occurrence:
  assumes "room \<in> set (booked_rooms c)"
  shows "\<exists>ys zs. booked_rooms c = ys @ room # zs \<and> room \<notin> set ys
           \<and> remove_room c room = Inr (c\<lparr>booked_rooms := ys @ zs\<rparr>)
           \<and> (count_list (booked_rooms c) room = 2 \<longrightarrow> count_list (ys @ zs) room = 1)"
proof -
  from list_remove_first [OF assms] obtain ys zs
    where s: "booked_rooms c = ys @ room # zs" "room \<notin> set ys"
      "list_remove room (booked_rooms c) = Inr (ys @ zs)"
    by blast
  have "count_list (booked_rooms c) room = 2 \<longrightarrow> count_list (ys @ zs) room = 1"
    unfolding s(1) by simp
  with s show ?thesis
    by (intro exI [of _ ys] exI [of _ zs]) (simp add: remove_room_def)
qed

theorem remove_room_first_occurrence_witness:
  "(1::nat) \<in> set (booked_rooms ((example_customers 0)\<lparr>booked_rooms := [0, 1, 2, 1]\<rparr>))
   \<and> remove_room ((example_customers 0)\<lparr>booked_rooms := [0, 1, 2, 1]\<rparr>) 1
       = Inr ((example_customers 0)\<lparr>booked_rooms := [0, 2, 1]\<rparr>)"
proof -
  let ?c = "(example_customers 0)\<lparr>booked_rooms := [0, 1, 2, 1]\<rparr>"
  have m: "(1::nat) \<in> set (booked_rooms ?c)" by simp
  from remove_room_first_occurrence [OF m] obtain ys zs
    where s: "[0, 1, 2, 1::nat] = ys @ 1 # zs" "1 \<notin> set ys"
      "remove_room ?c 1 = Inr (?c\<lparr>booked_rooms := ys @ zs\<rparr>)"
    by auto
  from s(1,2) have "ys = [0]" "zs = [2, 1]"
    by (auto simp: append_eq_Cons_conv Cons_eq_append_conv)
  with s(3) m show ?thesis by simp
qed

end
